theory Spec2Isabelle
  imports Complex_Main "HOL-Library.Sublist" "HOL-Library.Log_Nat"
begin

section \<open>Data model of the browser agent (agent.py)\<close>

text \<open>
  Python values that occur as arguments of a function call and as entries of a returned
  dictionary. A dictionary is an association list in insertion order; a lookup takes the
  first entry of a key.
\<close>

datatype pyval =
    VNone
  | VBool bool
  | VInt int
  | VStr string
  | VList "pyval list"
  | VDict "(string \<times> pyval) list"

type_synonym pydict = "(string \<times> pyval) list"

text \<open>\<^verbatim>\<open>types.FunctionCall\<close>: a name and an optional argument dictionary.\<close>

record function_call =
  fc_name :: string
  fc_args :: "pydict option"

text \<open>\<^verbatim>\<open>types.FunctionResponseBlob\<close> inside a \<^verbatim>\<open>types.FunctionResponsePart\<close>.\<close>

record blob =
  mime_type :: string
  blob_data :: string

text \<open>\<^verbatim>\<open>FunctionResponse\<close>: the name, the response mapping and the optional attachments.\<close>

record function_response =
  fr_name :: string
  fr_response :: pydict
  fr_parts :: "blob list option"

text \<open>\<^verbatim>\<open>Part\<close>: text, a function call or a function response.\<close>

record part =
  p_text :: "string option"
  p_function_call :: "function_call option"
  p_function_response :: "function_response option"

text \<open>\<^verbatim>\<open>Content\<close>: one turn of the conversation.\<close>

record content =
  role :: string
  parts :: "part list option"

text \<open>\<^verbatim>\<open>EnvState\<close>: what a built-in action of the browser returns.\<close>

record env_state =
  url :: string
  screenshot :: string

text \<open>The constructor calls of agent.py, with the fields they leave out set to None.\<close>

definition Part_text :: "string \<Rightarrow> part" where
  "Part_text t = \<lparr>p_text = Some t, p_function_call = None, p_function_response = None\<rparr>"


definition Part_function_response :: "function_response \<Rightarrow> part" where
  "Part_function_response fr =
     \<lparr>p_text = None, p_function_call = None, p_function_response = Some fr\<rparr>"

definition Content :: "string \<Rightarrow> part list \<Rightarrow> content" where
  "Content r ps = \<lparr>role = r, parts = Some ps\<rparr>"

definition MAX_RECENT_TURN_WITH_SCREENSHOTS :: nat where
  "MAX_RECENT_TURN_WITH_SCREENSHOTS = 3"

definition PREDEFINED_COMPUTER_USE_FUNCTIONS :: "string list" where
  "PREDEFINED_COMPUTER_USE_FUNCTIONS =
     [''open_web_browser'', ''click_at'', ''hover_at'', ''type_text_at'',
      ''scroll_document'', ''scroll_at'', ''wait_5_seconds'', ''go_back'',
      ''go_forward'', ''search'', ''navigate'', ''key_combination'', ''drag_and_drop'']"

section \<open>Screenshot retention (the tail of run\_one\_iteration)\<close>

text \<open>
  The condition of both inner loops:
  \<^verbatim>\<open>part.function_response and part.function_response.parts
     and part.function_response.name in PREDEFINED_COMPUTER_USE_FUNCTIONS\<close>.
  A list is true when it is neither None nor empty.
\<close>

definition screenshot_part :: "part \<Rightarrow> bool" where
  "screenshot_part p =
     (case p_function_response p of
        None \<Rightarrow> False
      | Some fr \<Rightarrow>
          (case fr_parts fr of None \<Rightarrow> False | Some bs \<Rightarrow> bs \<noteq> [])
          \<and> fr_name fr \<in> set PREDEFINED_COMPUTER_USE_FUNCTIONS)"

text \<open>
  \<^verbatim>\<open>content.role == "user" and content.parts\<close>, then the search for a part with a
  screenshot.
\<close>

definition has_screenshot :: "content \<Rightarrow> bool" where
  "has_screenshot c =
     (role c = ''user'' \<and>
      (case parts c of None \<Rightarrow> False | Some ps \<Rightarrow> ps \<noteq> [] \<and> list_ex screenshot_part ps))"

text \<open>\<^verbatim>\<open>part.function_response.parts = None\<close> on a part that meets the condition.\<close>

definition strip_part :: "part \<Rightarrow> part" where
  "strip_part p =
     (if screenshot_part p
      then p\<lparr>p_function_response :=
               map_option (\<lambda>fr. fr\<lparr>fr_parts := None\<rparr>) (p_function_response p)\<rparr>
      else p)"

definition strip_content :: "content \<Rightarrow> content" where
  "strip_content c = c\<lparr>parts := map_option (map strip_part) (parts c)\<rparr>"

text \<open>
  The loop over \<^verbatim>\<open>reversed(self._contents)\<close>; the first argument is
  \<^verbatim>\<open>turn_with_screenshots_found\<close> before the turn at the head is visited.
\<close>

fun prune_reversed :: "nat \<Rightarrow> content list \<Rightarrow> content list" where
  "prune_reversed found [] = []"
| "prune_reversed found (c # cs) =
     (if has_screenshot c
      then (if found + 1 > MAX_RECENT_TURN_WITH_SCREENSHOTS then strip_content c else c)
             # prune_reversed (found + 1) cs
      else c # prune_reversed found cs)"

definition prune_screenshots :: "content list \<Rightarrow> content list" where
  "prune_screenshots cs = rev (prune_reversed 0 (rev cs))"


section \<open>Exceptions\<close>

text \<open>
  The exceptions that agent.py raises or lets through. \<open>ModelError\<close> stands for
  whatever the model client raises; \<open>EOFError\<close> is what \<^verbatim>\<open>input()\<close> raises when the
  console has no further line.
\<close>

datatype error =
    ValueError string
  | KeyError string
  | TypeError string
  | AttributeError string
  | OverflowError
  | EOFError
  | ModelError string

section \<open>The retry wrapper (get\_model\_response)\<close>

text \<open>
  What the wrapper does to the world, in order: a call of \<^verbatim>\<open>generate_content\<close>
  (with the value of \<^verbatim>\<open>attempt\<close>) or a \<^verbatim>\<open>time.sleep(delay)\<close> that slept.
\<close>

datatype event = Attempt nat | Sleep int

text \<open>
  \<^verbatim>\<open>time.sleep(delay)\<close> for an integer delay: it raises ValueError for a negative delay
  and OverflowError for a delay that does not fit the clock's 64-bit count of
  nanoseconds (more than 9223372036 seconds); otherwise it sleeps and returns.
\<close>

definition time_sleep :: "int \<Rightarrow> error option" where
  "time_sleep delay =
     (if delay < 0 then Some (ValueError ''sleep length must be non-negative'')
      else if 9223372036 < delay then Some OverflowError
      else None)"

text \<open>
  The \<^verbatim>\<open>for attempt in range(max_retries)\<close> loop from the given value of
  \<^verbatim>\<open>attempt\<close> on. The transport gives the outcome of each call of
  \<^verbatim>\<open>generate_content\<close>, numbered from 0. The result is a raised exception, a returned
  response, or None when the loop ends without either. An exception of
  \<^verbatim>\<open>time.sleep\<close> is raised from inside the handler and ends the loop.
\<close>

function retry_loop ::
  "(nat \<Rightarrow> error + 'r) \<Rightarrow> int \<Rightarrow> int \<Rightarrow> nat \<Rightarrow> (error + 'r option) \<times> event list" where
  "retry_loop transport max_retries base_delay_s attempt =
     (if int attempt < max_retries
      then (case transport attempt of
              Inr response \<Rightarrow> (Inr (Some response), [Attempt attempt])
            | Inl e \<Rightarrow>
                if int attempt < max_retries - 1
                then (let delay = base_delay_s * 2 ^ attempt
                      in case time_sleep delay of
                           Some sleep_error \<Rightarrow> (Inl sleep_error, [Attempt attempt])
                         | None \<Rightarrow>
                             (let (r, evs) =
                                    retry_loop transport max_retries base_delay_s (attempt + 1)
                              in (r, Attempt attempt # Sleep delay # evs)))
                else (Inl e, [Attempt attempt]))
      else (Inr None, []))"
  by pat_completeness auto
termination
  by (relation "measure (\<lambda>(t, m, b, a). nat (m - int a))") auto

declare retry_loop.simps [simp del]

definition get_model_response ::
  "(nat \<Rightarrow> error + 'r) \<Rightarrow> int \<Rightarrow> int \<Rightarrow> (error + 'r option) \<times> event list" where
  "get_model_response transport max_retries base_delay_s =
     retry_loop transport max_retries base_delay_s 0"

text \<open>The defaults of the signature: \<^verbatim>\<open>max_retries=5, base_delay_s=1\<close>.\<close>

definition get_model_response_default ::
  "(nat \<Rightarrow> error + 'r) \<Rightarrow> (error + 'r option) \<times> event list" where
  "get_model_response_default transport = get_model_response transport 5 1"

section \<open>The safety confirmation (\_get\_safety\_confirmation)\<close>

text \<open>
  \<^verbatim>\<open>str.lower\<close> and \<^verbatim>\<open>str.upper\<close> on strings of ASCII characters: the letters are
  mapped, every other character is left as it is. On other strings Python's methods do
  more (they map letters beyond ASCII), so the credential functions below take the two
  methods as given; the safety confirmation compares with ASCII words only, and no
  character beyond ASCII has a lower-case form that contains one of their letters.
\<close>

definition char_lower :: "char \<Rightarrow> char" where
  "char_lower c =
     (case map_of (zip ''ABCDEFGHIJKLMNOPQRSTUVWXYZ'' ''abcdefghijklmnopqrstuvwxyz'') c of
        Some l \<Rightarrow> l | None \<Rightarrow> c)"

definition char_upper :: "char \<Rightarrow> char" where
  "char_upper c =
     (case map_of (zip ''abcdefghijklmnopqrstuvwxyz'' ''ABCDEFGHIJKLMNOPQRSTUVWXYZ'') c of
        Some u \<Rightarrow> u | None \<Rightarrow> c)"

definition str_lower :: "string \<Rightarrow> string" where
  "str_lower s = map char_lower s"

definition str_upper :: "string \<Rightarrow> string" where
  "str_upper s = map char_upper s"

datatype decision = CONTINUE | TERMINATE

text \<open>\<^verbatim>\<open>decision.lower() in ("y", "n", "ye", "yes", "no")\<close>.\<close>

definition accepted :: "string \<Rightarrow> bool" where
  "accepted d = (str_lower d \<in> set [''y'', ''n'', ''ye'', ''yes'', ''no''])"

text \<open>
  The \<^verbatim>\<open>while\<close> loop: the current value of \<^verbatim>\<open>decision\<close> and the lines the console
  still holds. It returns the accepted line and the lines left.
\<close>

fun read_decision :: "string \<Rightarrow> string list \<Rightarrow> error + string \<times> string list" where
  "read_decision d [] = (if accepted d then Inr (d, []) else Inl EOFError)"
| "read_decision d (x # xs) = (if accepted d then Inr (d, x # xs) else read_decision x xs)"

text \<open>\<^verbatim>\<open>d[key]\<close> on a dictionary.\<close>

definition subscript :: "pydict \<Rightarrow> string \<Rightarrow> error + pyval" where
  "subscript d k = (case map_of d k of None \<Rightarrow> Inl (KeyError k) | Some v \<Rightarrow> Inr v)"

definition get_safety_confirmation ::
  "bool \<Rightarrow> pydict \<Rightarrow> string list \<Rightarrow> error + decision \<times> string list" where
  "get_safety_confirmation trust_mode safety inputs =
     (case subscript safety ''decision'' of
        Inl e \<Rightarrow> Inl e
      | Inr dec \<Rightarrow>
          if dec \<noteq> VStr ''require_confirmation''
          then Inl (ValueError ''Unknown safety decision'')
          else if trust_mode
          then (case subscript safety ''explanation'' of
                  Inl e \<Rightarrow> Inl e
                | Inr _ \<Rightarrow> Inr (CONTINUE, inputs))
          else (case subscript safety ''explanation'' of
                  Inl e \<Rightarrow> Inl e
                | Inr _ \<Rightarrow>
                    (case read_decision [] inputs of
                       Inl e \<Rightarrow> Inl e
                     | Inr (d, rest) \<Rightarrow>
                         if str_lower d \<in> set [''n'', ''no'']
                         then Inr (TERMINATE, rest)
                         else Inr (CONTINUE, rest))))"

section \<open>The coordinate mapper (denormalize\_x, denormalize\_y)\<close>

text \<open>
  \<^verbatim>\<open>int(x / 1000 * size)\<close> is computed in binary64: \<^verbatim>\<open>x / 1000\<close> is the true
  division of two integers, correctly rounded; \<^verbatim>\<open>size\<close> is converted to a float,
  correctly rounded; the product is rounded again; \<^verbatim>\<open>int\<close> truncates towards zero.
  A float is modelled by the rational number it denotes. Rounding is to the nearest
  float, ties to the even significand, with 53 significant bits and the least exponent
  \<open>-1074\<close>; a result of magnitude \<open>2 ^ 1024\<close> or more has overflowed.
\<close>

definition pow2 :: "int \<Rightarrow> rat" where
  "pow2 e = (if 0 \<le> e then 2 ^ nat e else 1 / 2 ^ nat (- e))"

text \<open>The exponent \<open>e\<close> with \<open>2 ^ e \<le> \<bar>r\<bar> < 2 ^ (e + 1)\<close>, for \<open>r \<noteq> 0\<close>.\<close>

definition binade :: "rat \<Rightarrow> int" where
  "binade r =
     (if 1 \<le> \<bar>r\<bar> then bitlen \<lfloor>\<bar>r\<bar>\<rfloor> - 1 else - bitlen (\<lceil>1 / \<bar>r\<bar>\<rceil> - 1))"

definition round_half_even :: "rat \<Rightarrow> int" where
  "round_half_even r =
     (let f = \<lfloor>r\<rfloor>; d = r - of_int f
      in if d < 1 / 2 then f else if 1 / 2 < d then f + 1 else if even f then f else f + 1)"

definition float_round :: "rat \<Rightarrow> rat" where
  "float_round r =
     (if r = 0 then 0
      else (let u = pow2 (max (binade r - 52) (- 1074))
            in of_int (round_half_even (r / u)) * u))"

definition overflows :: "rat \<Rightarrow> bool" where
  "overflows r = (2 ^ 1024 \<le> \<bar>r\<bar>)"

text \<open>\<^verbatim>\<open>a / b\<close> on integers: ZeroDivisionError is not needed, the divisor is 1000.\<close>

definition int_true_div :: "int \<Rightarrow> int \<Rightarrow> error + rat" where
  "int_true_div a b =
     (let q = float_round (of_int a / of_int b)
      in if overflows q then Inl OverflowError else Inr q)"

text \<open>The conversion of the integer operand of \<^verbatim>\<open>float * int\<close>.\<close>

definition int_to_float :: "int \<Rightarrow> error + rat" where
  "int_to_float n =
     (let f = float_round (of_int n)
      in if overflows f then Inl OverflowError else Inr f)"

text \<open>
  \<^verbatim>\<open>float * float\<close>: an overflowing product is an infinity (None here), not an
  exception.
\<close>

definition float_mul :: "rat \<Rightarrow> rat \<Rightarrow> rat option" where
  "float_mul x y =
     (let p = float_round (x * y) in if overflows p then None else Some p)"

text \<open>\<^verbatim>\<open>int(f)\<close>: truncation towards zero; OverflowError on an infinity.\<close>

definition float_to_int :: "rat option \<Rightarrow> error + int" where
  "float_to_int f =
     (case f of
        None \<Rightarrow> Inl OverflowError
      | Some r \<Rightarrow> Inr (if 0 \<le> r then \<lfloor>r\<rfloor> else \<lceil>r\<rceil>))"

text \<open>\<^verbatim>\<open>int(v / 1000 * extent)\<close>, the body of both methods, \<open>extent\<close> being the width or the height of the screen.\<close>

definition denormalize :: "int \<Rightarrow> int \<Rightarrow> error + int" where
  "denormalize v extent =
     (case int_true_div v 1000 of
        Inl e \<Rightarrow> Inl e
      | Inr q \<Rightarrow>
          (case int_to_float extent of
             Inl e \<Rightarrow> Inl e
           | Inr s \<Rightarrow> float_to_int (float_mul q s)))"

text \<open>
  The argument comes out of the argument dictionary: an integer (a boolean counts as
  one); a string, a list, a dictionary or None makes the division raise TypeError.
  Floating-point arguments are not part of \<^typ>\<open>pyval\<close>.
\<close>

definition as_int :: "pyval \<Rightarrow> error + int" where
  "as_int v =
     (case v of
        VInt i \<Rightarrow> Inr i
      | VBool b \<Rightarrow> Inr (if b then 1 else 0)
      | _ \<Rightarrow> Inl (TypeError ''unsupported operand type(s) for /''))"

definition denormalize_x :: "int \<times> int \<Rightarrow> pyval \<Rightarrow> error + int" where
  "denormalize_x screen_size x =
     (case as_int x of Inl e \<Rightarrow> Inl e | Inr v \<Rightarrow> denormalize v (fst screen_size))"

definition denormalize_y :: "int \<times> int \<Rightarrow> pyval \<Rightarrow> error + int" where
  "denormalize_y screen_size y =
     (case as_int y of Inl e \<Rightarrow> Inl e | Inr v \<Rightarrow> denormalize v (snd screen_size))"

section \<open>Strings\<close>

text \<open>\<^verbatim>\<open>s.replace(pat, '')\<close>: every occurrence of the pattern, left to right, is dropped.\<close>

function str_remove :: "string \<Rightarrow> string \<Rightarrow> string" where
  "str_remove pat s =
     (if pat = [] \<or> s = [] then s
      else if prefix pat s then str_remove pat (drop (length pat) s)
      else hd s # str_remove pat (tl s))"
  by pat_completeness auto
termination
  by (relation "measure (\<lambda>(pat, s). length s)") auto

declare str_remove.simps [simp del]

text \<open>\<^verbatim>\<open>sep.join(xs)\<close>.\<close>

fun str_join :: "string \<Rightarrow> string list \<Rightarrow> string" where
  "str_join sep [] = []"
| "str_join sep [x] = x"
| "str_join sep (x # y # ys) = x @ sep @ str_join sep (y # ys)"

text \<open>\<^verbatim>\<open>s.split(sep)\<close> for a separator of one character.\<close>

fun str_split :: "char \<Rightarrow> string \<Rightarrow> string list" where
  "str_split sep [] = [[]]"
| "str_split sep (c # cs) =
     (if c = sep then [] # str_split sep cs
      else (case str_split sep cs of [] \<Rightarrow> [[c]] | w # ws \<Rightarrow> (c # w) # ws))"

text \<open>The truth value of a Python value in a condition.\<close>

definition truthy :: "pyval \<Rightarrow> bool" where
  "truthy v =
     (case v of
        VNone \<Rightarrow> False
      | VBool b \<Rightarrow> b
      | VInt i \<Rightarrow> i \<noteq> 0
      | VStr s \<Rightarrow> s \<noteq> []
      | VList xs \<Rightarrow> xs \<noteq> []
      | VDict d \<Rightarrow> d \<noteq> [])"

section \<open>The credential functions\<close>

text \<open>
  \<^verbatim>\<open>os.environ\<close> is a list of names and values, in the order \<^verbatim>\<open>keys()\<close> gives the
  names.
\<close>

type_synonym environ = "(string \<times> string) list"

text \<open>
  What the credential functions read from the Python process: \<^verbatim>\<open>os.environ\<close>, and the
  methods \<^verbatim>\<open>str.upper\<close> and \<^verbatim>\<open>str.lower\<close>, which are not defined here but given
  (on ASCII strings they are \<open>str_upper\<close> and \<open>str_lower\<close>).
\<close>

record process =
  os_environ :: environ
  py_upper :: "string \<Rightarrow> string"
  py_lower :: "string \<Rightarrow> string"

text \<open>The body of the loop over \<^verbatim>\<open>env_vars\<close>: the site a variable contributes, if any.\<close>

definition site_of_var :: "(string \<Rightarrow> string) \<Rightarrow> string list \<Rightarrow> string \<Rightarrow> string option" where
  "site_of_var lower env_vars var =
     (if suffix ''_USERNAME'' var \<or> suffix ''_USER'' var
      then (let site = str_remove ''_USER'' (str_remove ''_USERNAME'' var);
                password_var = site @ ''_PASSWORD''
            in if password_var \<in> set env_vars then Some (lower site) else None)
      else None)"

definition get_available_credentials :: "process \<Rightarrow> pydict" where
  "get_available_credentials env =
     (let env_vars = map fst (os_environ env);
          available_sites = List.map_filter (site_of_var (py_lower env) env_vars) env_vars
      in [(''available_sites'', VList (map VStr available_sites)),
          (''message'',
           VStr (''Credentials are securely stored for: ''
                 @ (if available_sites \<noteq> [] then str_join '', '' available_sites
                    else ''no sites'')
                 @ ''. Use perform_secure_login() to authenticate.''))])"

text \<open>\<^verbatim>\<open>os.environ.get(key)\<close> used as a condition: set and not empty.\<close>

definition perform_secure_login :: "process \<Rightarrow> string \<Rightarrow> pydict" where
  "perform_secure_login env site =
     (let site_upper = py_upper env site;
          username_key0 = site_upper @ ''_USERNAME'';
          password_key = site_upper @ ''_PASSWORD'';
          username_key = (if map_of (os_environ env) username_key0 = None
                          then site_upper @ ''_USER'' else username_key0);
          username = map_of (os_environ env) username_key;
          password = map_of (os_environ env) password_key;
          failure = [(''success'', VBool False),
               (''message'',
                VStr (''No credentials found for '' @ site
                      @ ''. Expected environment variables: '' @ username_key
                      @ '' and '' @ password_key)),
               (''username'', VNone),
               (''password'', VNone)]
      in (case username of
            None \<Rightarrow> failure
          | Some u \<Rightarrow>
              (case password of
                 None \<Rightarrow> failure
               | Some p \<Rightarrow>
                   if u \<noteq> [] \<and> p \<noteq> []
                   then [(''success'', VBool True),
                         (''message'',
                          VStr (''Credentials retrieved for '' @ site
                                @ ''. Ready to perform login.'')),
                         (''username'', VStr u),
                         (''password'', VStr p)]
                   else failure)))"

section \<open>The action dispatcher (handle\_action)\<close>

text \<open>
  A call of a method of the browser (\<^verbatim>\<open>self._browser_computer\<close>), with the arguments
  handle\_action passes. Arguments that handle\_action forwards as it got them are Python
  values.
\<close>

datatype backend_call =
    Open_web_browser
  | Click_at int int
  | Hover_at int int
  | Type_text_at int int pyval pyval pyval
  | Scroll_document pyval
  | Scroll_at int int pyval int
  | Wait_5_seconds
  | Go_back
  | Go_forward
  | Search
  | Navigate pyval
  | Key_combination "string list"
  | Drag_and_drop int int int int

text \<open>
  The browser: its screen size, and the \<^verbatim>\<open>EnvState\<close> it returns for a call, which may
  depend on every call made before (the list ends with the call being answered).
\<close>

record computer =
  screen_size :: "int \<times> int"
  respond :: "backend_call list \<Rightarrow> env_state"

text \<open>
  The mutable state: the fields of the agent that the methods assign
  (\<^verbatim>\<open>_contents\<close>, \<^verbatim>\<open>_temp_credentials\<close>, \<^verbatim>\<open>final_reasoning\<close>), and around it the calls made
  to the browser so far and the lines the console will still deliver to \<^verbatim>\<open>input()\<close>.
\<close>

record agent =
  contents :: "content list"
  temp_credentials :: pydict
  final_reasoning :: "string option"
  calls :: "backend_call list"
  console :: "string list"

text \<open>\<^verbatim>\<open>FunctionResponseT = Union[EnvState, dict]\<close>.\<close>

datatype function_result = Env env_state | Dict pydict

text \<open>Sequencing of steps that may raise.\<close>

definition on_ok :: "error + 'a \<Rightarrow> ('a \<Rightarrow> error + 'b) \<Rightarrow> error + 'b" where
  "on_ok m f = (case m of Inl e \<Rightarrow> Inl e | Inr x \<Rightarrow> f x)"

text \<open>\<^verbatim>\<open>action.args[key]\<close> and \<^verbatim>\<open>action.args.get(key, default)\<close>.\<close>

definition arg :: "function_call \<Rightarrow> string \<Rightarrow> error + pyval" where
  "arg action k =
     (case fc_args action of
        None \<Rightarrow> Inl (TypeError ''NoneType object is not subscriptable'')
      | Some d \<Rightarrow> subscript d k)"

definition arg_get :: "function_call \<Rightarrow> string \<Rightarrow> pyval \<Rightarrow> error + pyval" where
  "arg_get action k dflt =
     (case fc_args action of
        None \<Rightarrow> Inl (AttributeError ''NoneType object has no attribute get'')
      | Some d \<Rightarrow> Inr (case map_of d k of None \<Rightarrow> dflt | Some v \<Rightarrow> v))"

text \<open>A method of the browser is called: the call is recorded and answered.\<close>

definition invoke :: "computer \<Rightarrow> agent \<Rightarrow> backend_call \<Rightarrow> error + function_result \<times> agent" where
  "invoke c s call =
     Inr (Env (respond c (calls s @ [call])), s\<lparr>calls := calls s @ [call]\<rparr>)"

text \<open>The substitution of the placeholders in the text of type\_text\_at.\<close>

definition substitute_text :: "pydict \<Rightarrow> pyval \<Rightarrow> pyval" where
  "substitute_text creds text =
     (case (if text = VStr ''{{USERNAME}}'' then map_of creds ''username'' else None) of
        Some username \<Rightarrow> username
      | None \<Rightarrow>
          (case (if text = VStr ''{{PASSWORD}}'' then map_of creds ''password'' else None) of
             Some password \<Rightarrow> password
           | None \<Rightarrow> text))"

text \<open>\<^verbatim>\<open>x * y\<close> of multiply\_numbers, on the values of \<^typ>\<open>pyval\<close>.\<close>

fun py_mul :: "pyval \<Rightarrow> pyval \<Rightarrow> error + pyval" where
  "py_mul (VInt a) (VInt b) = Inr (VInt (a * b))"
| "py_mul (VInt a) (VBool b) = Inr (VInt (a * (if b then 1 else 0)))"
| "py_mul (VBool a) (VInt b) = Inr (VInt ((if a then 1 else 0) * b))"
| "py_mul (VBool a) (VBool b) = Inr (VInt ((if a then 1 else 0) * (if b then 1 else 0)))"
| "py_mul (VStr s) (VInt n) = Inr (VStr (concat (replicate (nat n) s)))"
| "py_mul (VInt n) (VStr s) = Inr (VStr (concat (replicate (nat n) s)))"
| "py_mul (VStr s) (VBool b) = Inr (VStr (if b then s else []))"
| "py_mul (VBool b) (VStr s) = Inr (VStr (if b then s else []))"
| "py_mul (VList xs) (VInt n) = Inr (VList (concat (replicate (nat n) xs)))"
| "py_mul (VInt n) (VList xs) = Inr (VList (concat (replicate (nat n) xs)))"
| "py_mul (VList xs) (VBool b) = Inr (VList (if b then xs else []))"
| "py_mul (VBool b) (VList xs) = Inr (VList (if b then xs else []))"
| "py_mul _ _ = Inl (TypeError ''unsupported operand type(s) for *'')"

definition multiply_numbers :: "pyval \<Rightarrow> pyval \<Rightarrow> error + pydict" where
  "multiply_numbers x y = on_ok (py_mul x y) (\<lambda>r. Inr [(''result'', r)])"

definition instruction_text :: string where
  "instruction_text = ''Credentials loaded. Use type_text_at with {{USERNAME}} and {{PASSWORD}} placeholders to enter credentials in the appropriate fields.''"

text \<open>
  The branch for perform\_secure\_login: the result without the secrets, and the agent
  with the credentials stored when the lookup succeeded.
\<close>

definition secure_login_action :: "process \<Rightarrow> agent \<Rightarrow> pyval \<Rightarrow> error + function_result \<times> agent" where
  "secure_login_action env s site =
     (case site of
        VStr site_name \<Rightarrow>
          (let result = perform_secure_login env site_name
           in on_ok (subscript result ''success'') (\<lambda>success.
              on_ok (subscript result ''message'') (\<lambda>message.
              let safe_result = [(''success'', success), (''message'', message)]
              in if truthy success
                 then on_ok (subscript result ''username'') (\<lambda>username.
                      on_ok (subscript result ''password'') (\<lambda>password.
                      Inr (Dict (safe_result @ [(''instruction'', VStr instruction_text)]),
                           s\<lparr>temp_credentials :=
                                [(''username'', username), (''password'', password)]\<rparr>)))
                 else Inr (Dict safe_result, s))))
      | _ \<Rightarrow> Inl (AttributeError ''object has no attribute upper''))"

definition handle_action ::
  "computer \<Rightarrow> process \<Rightarrow> agent \<Rightarrow> function_call \<Rightarrow> error + function_result \<times> agent" where
  "handle_action c env s action =
     (if fc_name action = ''open_web_browser'' then invoke c s Open_web_browser
      else if fc_name action = ''click_at'' then
        on_ok (on_ok (arg action ''x'') (denormalize_x (screen_size c))) (\<lambda>x.
        on_ok (on_ok (arg action ''y'') (denormalize_y (screen_size c))) (\<lambda>y.
        invoke c s (Click_at x y)))
      else if fc_name action = ''hover_at'' then
        on_ok (on_ok (arg action ''x'') (denormalize_x (screen_size c))) (\<lambda>x.
        on_ok (on_ok (arg action ''y'') (denormalize_y (screen_size c))) (\<lambda>y.
        invoke c s (Hover_at x y)))
      else if fc_name action = ''type_text_at'' then
        on_ok (on_ok (arg action ''x'') (denormalize_x (screen_size c))) (\<lambda>x.
        on_ok (on_ok (arg action ''y'') (denormalize_y (screen_size c))) (\<lambda>y.
        on_ok (arg_get action ''press_enter'' (VBool False)) (\<lambda>press_enter.
        on_ok (arg_get action ''clear_before_typing'' (VBool True)) (\<lambda>clear_before_typing.
        on_ok (arg action ''text'') (\<lambda>text.
        invoke c s (Type_text_at x y (substitute_text (temp_credentials s) text)
                      press_enter clear_before_typing))))))
      else if fc_name action = ''scroll_document'' then
        on_ok (arg action ''direction'') (\<lambda>direction. invoke c s (Scroll_document direction))
      else if fc_name action = ''scroll_at'' then
        on_ok (on_ok (arg action ''x'') (denormalize_x (screen_size c))) (\<lambda>x.
        on_ok (on_ok (arg action ''y'') (denormalize_y (screen_size c))) (\<lambda>y.
        on_ok (arg_get action ''magnitude'' (VInt 800)) (\<lambda>magnitude.
        on_ok (arg action ''direction'') (\<lambda>direction.
        on_ok (if direction = VStr ''up'' \<or> direction = VStr ''down''
               then denormalize_y (screen_size c) magnitude
               else if direction = VStr ''left'' \<or> direction = VStr ''right''
               then denormalize_x (screen_size c) magnitude
               else Inl (ValueError ''Unknown direction'')) (\<lambda>m.
        invoke c s (Scroll_at x y direction m))))))
      else if fc_name action = ''wait_5_seconds'' then invoke c s Wait_5_seconds
      else if fc_name action = ''go_back'' then invoke c s Go_back
      else if fc_name action = ''go_forward'' then invoke c s Go_forward
      else if fc_name action = ''search'' then invoke c s Search
      else if fc_name action = ''navigate'' then
        on_ok (arg action ''url'') (\<lambda>u. invoke c s (Navigate u))
      else if fc_name action = ''key_combination'' then
        on_ok (arg action ''keys'') (\<lambda>keys.
          case keys of
            VStr ks \<Rightarrow> invoke c s (Key_combination (str_split CHR ''+'' ks))
          | _ \<Rightarrow> Inl (AttributeError ''object has no attribute split''))
      else if fc_name action = ''drag_and_drop'' then
        on_ok (on_ok (arg action ''x'') (denormalize_x (screen_size c))) (\<lambda>x.
        on_ok (on_ok (arg action ''y'') (denormalize_y (screen_size c))) (\<lambda>y.
        on_ok (on_ok (arg action ''destination_x'') (denormalize_x (screen_size c))) (\<lambda>dx.
        on_ok (on_ok (arg action ''destination_y'') (denormalize_y (screen_size c))) (\<lambda>dy.
        invoke c s (Drag_and_drop x y dx dy)))))
      else if fc_name action = ''multiply_numbers'' then
        on_ok (arg action ''x'') (\<lambda>x.
        on_ok (arg action ''y'') (\<lambda>y.
        on_ok (multiply_numbers x y) (\<lambda>d. Inr (Dict d, s))))
      else if fc_name action = ''get_available_credentials'' then
        Inr (Dict (get_available_credentials env), s)
      else if fc_name action = ''perform_secure_login'' then
        on_ok (arg action ''site'') (secure_login_action env s)
      else Inl (ValueError ''Unsupported function''))"

section \<open>One iteration of the agent loop (run\_one\_iteration)\<close>

datatype finish_reason = STOP | MAX_TOKENS | MALFORMED_FUNCTION_CALL | OTHER

text \<open>\<^verbatim>\<open>Candidate\<close> and \<^verbatim>\<open>GenerateContentResponse\<close>, as far as the loop reads them.\<close>

record candidate =
  cand_content :: "content option"
  cand_finish_reason :: finish_reason

record response =
  candidates :: "candidate list option"




text \<open>
  \<^verbatim>\<open>function_call.args and (safety := function_call.args.get("safety_decision"))\<close>:
  the safety decision when the condition holds.
\<close>

definition safety_of :: "function_call \<Rightarrow> pyval option" where
  "safety_of fc =
     (case fc_args fc of
        None \<Rightarrow> None
      | Some d \<Rightarrow>
          if d = [] then None
          else (case map_of d ''safety_decision'' of
                  None \<Rightarrow> None
                | Some v \<Rightarrow> if truthy v then Some v else None))"

text \<open>The two ways a \<^verbatim>\<open>FunctionResponse\<close> is built from the result of handle\_action.\<close>

definition to_function_response :: "string \<Rightarrow> pydict \<Rightarrow> function_result \<Rightarrow> function_response" where
  "to_function_response name extra_fr_fields fc_result =
     (case fc_result of
        Env st \<Rightarrow>
          \<lparr>fr_name = name,
           fr_response = (''url'', VStr (url st)) # extra_fr_fields,
           fr_parts = Some [\<lparr>mime_type = ''image/png'', blob_data = screenshot st\<rparr>]\<rparr>
      | Dict d \<Rightarrow> \<lparr>fr_name = name, fr_response = d, fr_parts = None\<rparr>)"

text \<open>
  The loop over \<^verbatim>\<open>function_calls\<close>. The result is None when a confirmation was
  denied (the method then returns "COMPLETE" at once), the collected responses otherwise.
\<close>

fun dispatch_calls ::
  "bool \<Rightarrow> computer \<Rightarrow> process \<Rightarrow> agent \<Rightarrow> function_response list \<Rightarrow> function_call list
     \<Rightarrow> error + function_response list option \<times> agent" where
  "dispatch_calls trust_mode c env s function_responses [] = Inr (Some function_responses, s)"
| "dispatch_calls trust_mode c env s function_responses (function_call # rest) =
     on_ok (case safety_of function_call of
              None \<Rightarrow> Inr (Some [], s)
            | Some safety \<Rightarrow>
                (case safety of
                   VDict sd \<Rightarrow>
                     on_ok (get_safety_confirmation trust_mode sd (console s)) (\<lambda>(decision, left).
                       if decision = TERMINATE
                       then Inr (None, s\<lparr>console := left\<rparr>)
                       else Inr (Some [(''safety_acknowledgement'', VStr ''true'')],
                                 s\<lparr>console := left\<rparr>))
                 | _ \<Rightarrow> Inl (TypeError ''safety decision is not a mapping'')))
       (\<lambda>(gate, s1).
          case gate of
            None \<Rightarrow> Inr (None, s1)
          | Some extra_fr_fields \<Rightarrow>
              on_ok (handle_action c env s1 function_call) (\<lambda>(fc_result, s2).
                dispatch_calls trust_mode c env s2
                  (function_responses
                     @ [to_function_response (fc_name function_call) extra_fr_fields fc_result])
                  rest))"


section \<open>Properties of the screenshot retention\<close>

lemma length_prune_reversed: "length (prune_reversed n cs) = length cs"
  by (induction cs arbitrary: n) auto

lemma strip_part_not_screenshot: "\<not> screenshot_part (strip_part p)"
  by (auto simp: strip_part_def screenshot_part_def split: option.splits)

lemma strip_content_no_screenshot: "\<not> has_screenshot (strip_content c)"
  by (auto simp: has_screenshot_def strip_content_def list_ex_iff strip_part_not_screenshot
      split: option.splits)

lemma filter_prune_reversed:
  "filter has_screenshot (prune_reversed n cs) =
     take (MAX_RECENT_TURN_WITH_SCREENSHOTS - n) (filter has_screenshot cs)"
proof (induction cs arbitrary: n)
  case Nil
  then show ?case by simp
next
  case (Cons c cs)
  show ?case
  proof (cases "has_screenshot c")
    case False
    then show ?thesis using Cons by simp
  next
    case True
    show ?thesis
    proof (cases "n + 1 > MAX_RECENT_TURN_WITH_SCREENSHOTS")
      case True
      with \<open>has_screenshot c\<close> show ?thesis
        by (simp add: Cons strip_content_no_screenshot)
    next
      case False
      then obtain k where k: "MAX_RECENT_TURN_WITH_SCREENSHOTS - n = Suc k"
        by (cases "MAX_RECENT_TURN_WITH_SCREENSHOTS - n") auto
      then have "MAX_RECENT_TURN_WITH_SCREENSHOTS - (n + 1) = k" by simp
      with False k \<open>has_screenshot c\<close> show ?thesis
        by (simp add: Cons)
    qed
  qed
qed

lemma prune_reversed_nth:
  "i < length cs \<Longrightarrow>
   prune_reversed n cs ! i =
     (if has_screenshot (cs ! i) \<and>
         MAX_RECENT_TURN_WITH_SCREENSHOTS \<le> n + length (filter has_screenshot (take i cs))
      then strip_content (cs ! i) else cs ! i)"
proof (induction cs arbitrary: n i)
  case Nil
  then show ?case by simp
next
  case (Cons c cs)
  show ?case
  proof (cases i)
    case 0
    then show ?thesis by auto
  next
    case (Suc j)
    with Cons.prems have "j < length cs" by simp
    from Cons.IH[OF this] Suc show ?thesis by auto
  qed
qed

lemma prune_reversed_twice:
  "m \<le> n \<Longrightarrow> prune_reversed m (prune_reversed n cs) = prune_reversed n cs"
proof (induction cs arbitrary: m n)
  case Nil
  then show ?case by simp
next
  case (Cons c cs)
  show ?case
  proof (cases "has_screenshot c")
    case False
    then show ?thesis using Cons by simp
  next
    case True
    show ?thesis
    proof (cases "n + 1 > MAX_RECENT_TURN_WITH_SCREENSHOTS")
      case True
      have "m \<le> n + 1" using Cons.prems by simp
      from Cons.IH[OF this] True \<open>has_screenshot c\<close> show ?thesis
        by (simp add: strip_content_no_screenshot)
    next
      case False
      have "m + 1 \<le> n + 1" using Cons.prems by simp
      from Cons.IH[OF this] False \<open>has_screenshot c\<close> Cons.prems show ?thesis
        by simp
    qed
  qed
qed

lemmas conv_eval = has_screenshot_def screenshot_part_def Content_def Part_text_def
  Part_function_response_def PREDEFINED_COMPUTER_USE_FUNCTIONS_def
  strip_content_def strip_part_def

lemma prune_screenshots_nth:
  assumes "i < length cs"
  shows "prune_screenshots cs ! i =
     (if has_screenshot (cs ! i) \<and>
         MAX_RECENT_TURN_WITH_SCREENSHOTS \<le> length (filter has_screenshot (drop (Suc i) cs))
      then strip_content (cs ! i) else cs ! i)"
proof -
  let ?k = "length cs - Suc i"
  have k: "?k < length (rev cs)" using assms by simp
  have a: "prune_screenshots cs ! i = prune_reversed 0 (rev cs) ! ?k"
    using assms by (simp add: prune_screenshots_def rev_nth length_prune_reversed)
  have b: "rev cs ! ?k = cs ! i"
    using assms by (simp add: rev_nth)
  have c: "take ?k (rev cs) = rev (drop (Suc i) cs)"
    using assms by (simp add: take_rev)
  show ?thesis
    unfolding a prune_reversed_nth[OF k] b c by (simp add: rev_filter[symmetric])
qed

lemma filter_prune_screenshots:
  "filter has_screenshot (prune_screenshots cs) =
     drop (length (filter has_screenshot cs) - MAX_RECENT_TURN_WITH_SCREENSHOTS)
       (filter has_screenshot cs)"
  by (simp add: prune_screenshots_def rev_filter[symmetric] filter_prune_reversed rev_take)

lemma strip_part_fields:
  "p_text (strip_part p) = p_text p \<and>
   p_function_call (strip_part p) = p_function_call p \<and>
   map_option fr_name (p_function_response (strip_part p)) = map_option fr_name (p_function_response p) \<and>
   map_option fr_response (p_function_response (strip_part p)) =
     map_option fr_response (p_function_response p)"
  by (cases "p_function_response p") (simp_all add: strip_part_def)

lemma strip_part_other: "\<not> screenshot_part p \<Longrightarrow> strip_part p = p"
  by (simp add: strip_part_def)

lemma strip_part_attachment:
  "screenshot_part p \<Longrightarrow> map_option fr_parts (p_function_response (strip_part p)) = Some None"
  by (cases "p_function_response p") (simp_all add: strip_part_def screenshot_part_def)

text \<open>
  Claim C5. In a conversation with more than three user turns that hold a screenshot of a
  predefined function, the pruning pass leaves the length alone, leaves exactly three
  such turns (the three most recent, as they were), replaces every such turn with at
  least three such turns after it by its stripped copy and changes no other turn; the
  stripped copy keeps the role, and in each part the text, the function call, the name
  and the response mapping, loses the attachments of each part that met the condition
  and leaves every other part as it was.
\<close>

theorem screenshot_retention_window:
  assumes "3 < length (filter has_screenshot cs)"
  shows "length (prune_screenshots cs) = length cs \<and>
     length (filter has_screenshot (prune_screenshots cs)) = 3 \<and>
     filter has_screenshot (prune_screenshots cs) =
       drop (length (filter has_screenshot cs) - 3) (filter has_screenshot cs) \<and>
     (\<forall>i<length cs. prune_screenshots cs ! i =
        (if has_screenshot (cs ! i) \<and> 3 \<le> length (filter has_screenshot (drop (Suc i) cs))
         then strip_content (cs ! i) else cs ! i)) \<and>
     (\<forall>c. role (strip_content c) = role c \<and>
          parts (strip_content c) = map_option (map strip_part) (parts c)) \<and>
     (\<forall>p. p_text (strip_part p) = p_text p \<and>
          p_function_call (strip_part p) = p_function_call p \<and>
          map_option fr_name (p_function_response (strip_part p)) =
            map_option fr_name (p_function_response p) \<and>
          map_option fr_response (p_function_response (strip_part p)) =
            map_option fr_response (p_function_response p) \<and>
          (if screenshot_part p
           then map_option fr_parts (p_function_response (strip_part p)) = Some None
           else strip_part p = p))"
proof -
  have 1: "length (prune_screenshots cs) = length cs"
    by (simp add: prune_screenshots_def length_prune_reversed)
  have 3: "filter has_screenshot (prune_screenshots cs) =
       drop (length (filter has_screenshot cs) - 3) (filter has_screenshot cs)"
    using filter_prune_screenshots[of cs] by (simp add: MAX_RECENT_TURN_WITH_SCREENSHOTS_def)
  have 2: "length (filter has_screenshot (prune_screenshots cs)) = 3"
    unfolding 3 using assms by simp
  have 4: "\<forall>i<length cs. prune_screenshots cs ! i =
        (if has_screenshot (cs ! i) \<and> 3 \<le> length (filter has_screenshot (drop (Suc i) cs))
         then strip_content (cs ! i) else cs ! i)"
    using prune_screenshots_nth[of _ cs] by (simp add: MAX_RECENT_TURN_WITH_SCREENSHOTS_def)
  have 5: "\<forall>c. role (strip_content c) = role c \<and>
          parts (strip_content c) = map_option (map strip_part) (parts c)"
    by (simp add: strip_content_def)
  have 6: "\<forall>p. p_text (strip_part p) = p_text p \<and>
          p_function_call (strip_part p) = p_function_call p \<and>
          map_option fr_name (p_function_response (strip_part p)) =
            map_option fr_name (p_function_response p) \<and>
          map_option fr_response (p_function_response (strip_part p)) =
            map_option fr_response (p_function_response p) \<and>
          (if screenshot_part p
           then map_option fr_parts (p_function_response (strip_part p)) = Some None
           else strip_part p = p)"
    using strip_part_fields strip_part_other strip_part_attachment by simp
  from 1 2 3 4 5 6 show ?thesis by blast
qed

theorem screenshot_retention_window_witness:
  "3 < length (filter has_screenshot
     [Content ''user'' [Part_text ''book a table''],
      Content ''user'' [Part_function_response
        \<lparr>fr_name = ''click_at'', fr_response = [(''url'', VStr ''a.example'')],
         fr_parts = Some [\<lparr>mime_type = ''image/png'', blob_data = ''s1''\<rparr>]\<rparr>],
      Content ''model'' [Part_text ''next''],
      Content ''user'' [Part_function_response
        \<lparr>fr_name = ''navigate'', fr_response = [(''url'', VStr ''b.example'')],
         fr_parts = Some [\<lparr>mime_type = ''image/png'', blob_data = ''s2''\<rparr>]\<rparr>],
      Content ''user'' [Part_function_response
        \<lparr>fr_name = ''go_back'', fr_response = [(''url'', VStr ''c.example'')],
         fr_parts = Some [\<lparr>mime_type = ''image/png'', blob_data = ''s3''\<rparr>]\<rparr>],
      Content ''user'' [Part_function_response
        \<lparr>fr_name = ''search'', fr_response = [(''url'', VStr ''d.example'')],
         fr_parts = Some [\<lparr>mime_type = ''image/png'', blob_data = ''s4''\<rparr>]\<rparr>]]) \<and>
   prune_screenshots
     [Content ''user'' [Part_text ''book a table''],
      Content ''user'' [Part_function_response
        \<lparr>fr_name = ''click_at'', fr_response = [(''url'', VStr ''a.example'')],
         fr_parts = Some [\<lparr>mime_type = ''image/png'', blob_data = ''s1''\<rparr>]\<rparr>],
      Content ''model'' [Part_text ''next''],
      Content ''user'' [Part_function_response
        \<lparr>fr_name = ''navigate'', fr_response = [(''url'', VStr ''b.example'')],
         fr_parts = Some [\<lparr>mime_type = ''image/png'', blob_data = ''s2''\<rparr>]\<rparr>],
      Content ''user'' [Part_function_response
        \<lparr>fr_name = ''go_back'', fr_response = [(''url'', VStr ''c.example'')],
         fr_parts = Some [\<lparr>mime_type = ''image/png'', blob_data = ''s3''\<rparr>]\<rparr>],
      Content ''user'' [Part_function_response
        \<lparr>fr_name = ''search'', fr_response = [(''url'', VStr ''d.example'')],
         fr_parts = Some [\<lparr>mime_type = ''image/png'', blob_data = ''s4''\<rparr>]\<rparr>]] ! 1 =
      Content ''user'' [Part_function_response
        \<lparr>fr_name = ''click_at'', fr_response = [(''url'', VStr ''a.example'')],
         fr_parts = None\<rparr>]"
  (is "?H \<and> ?C")
proof -
  have h: ?H by (simp add: conv_eval)
  have "?C" using screenshot_retention_window[OF h] by (simp add: conv_eval)
  with h show ?thesis by simp
qed

text \<open>
  Claim C6. The pruning pass is idempotent: a second pass over a pruned conversation
  returns it unchanged.
\<close>

theorem screenshot_retention_idempotent: "prune_screenshots (prune_screenshots cs) = prune_screenshots cs"
  by (simp add: prune_screenshots_def prune_reversed_twice)

theorem screenshot_retention_idempotent_witness:
  "prune_screenshots (prune_screenshots
     [Content ''user'' [Part_function_response
        \<lparr>fr_name = ''click_at'', fr_response = [(''url'', VStr ''a.example'')],
         fr_parts = Some [\<lparr>mime_type = ''image/png'', blob_data = ''s1''\<rparr>]\<rparr>]]) =
   prune_screenshots
     [Content ''user'' [Part_function_response
        \<lparr>fr_name = ''click_at'', fr_response = [(''url'', VStr ''a.example'')],
         fr_parts = Some [\<lparr>mime_type = ''image/png'', blob_data = ''s1''\<rparr>]\<rparr>]]"
  by (rule screenshot_retention_idempotent)

section \<open>Properties of the retry wrapper\<close>

lemma retry_loop_success:
  "a \<le> j \<Longrightarrow> int j < m \<Longrightarrow> \<forall>k. a \<le> k \<and> k < j \<longrightarrow> isl (t k) \<Longrightarrow>
   \<forall>k. a \<le> k \<and> k < j \<longrightarrow> time_sleep (b * 2 ^ k) = None \<Longrightarrow> t j = Inr r \<Longrightarrow>
   retry_loop t m b a =
     (Inr (Some r), concat (map (\<lambda>k. [Attempt k, Sleep (b * 2 ^ k)]) [a..<j]) @ [Attempt j])"
proof (induction "j - a" arbitrary: a)
  case 0
  then have "a = j" by simp
  with 0 show ?case by (simp add: retry_loop.simps[of t m b j])
next
  case (Suc d)
  then have lt: "a < j" by simp
  with Suc.prems obtain e where e: "t a = Inl e" by (metis isl_def order_refl)
  have sl: "time_sleep (b * 2 ^ a) = None" using Suc.prems(4) lt by simp
  have IH: "retry_loop t m b (a + 1) =
     (Inr (Some r), concat (map (\<lambda>k. [Attempt k, Sleep (b * 2 ^ k)]) [a + 1..<j]) @ [Attempt j])"
    using Suc.hyps(1)[of "a + 1"] Suc.hyps(2) Suc.prems lt by simp
  have "int a < m - 1" using lt Suc.prems by simp
  then show ?case
    using e IH lt sl by (simp add: retry_loop.simps[of t m b a] upt_conv_Cons)
qed

lemma retry_loop_exhausted:
  "int a < m \<Longrightarrow> \<forall>k. a \<le> k \<and> int k < m \<longrightarrow> isl (t k) \<Longrightarrow>
   \<forall>k. a \<le> k \<and> int k < m - 1 \<longrightarrow> time_sleep (b * 2 ^ k) = None \<Longrightarrow>
   retry_loop t m b a =
     (Inl (projl (t (nat m - 1))),
      concat (map (\<lambda>k. [Attempt k, Sleep (b * 2 ^ k)]) [a..<nat m - 1]) @ [Attempt (nat m - 1)])"
proof (induction "nat m - 1 - a" arbitrary: a)
  case 0
  then have a: "a = nat m - 1" by linarith
  from 0 obtain e where e: "t a = Inl e" by (metis isl_def order_refl)
  have "\<not> int a < m - 1" using a by linarith
  with 0 e have "retry_loop t m b a = (Inl e, [Attempt a])"
    by (simp add: retry_loop.simps[of t m b a])
  with e a show ?case by simp
next
  case (Suc d)
  then have lt: "int a < m - 1" by linarith
  from Suc.prems obtain e where e: "t a = Inl e" by (metis isl_def order_refl)
  have sl: "time_sleep (b * 2 ^ a) = None" using Suc.prems(3) lt by simp
  have IH: "retry_loop t m b (a + 1) =
     (Inl (projl (t (nat m - 1))),
      concat (map (\<lambda>k. [Attempt k, Sleep (b * 2 ^ k)]) [a + 1..<nat m - 1]) @ [Attempt (nat m - 1)])"
    using Suc.hyps(1)[of "a + 1"] Suc.hyps(2) Suc.prems lt by simp
  have "a < nat m - 1" using lt by linarith
  then show ?case
    using e IH lt sl Suc.prems(1) by (simp add: retry_loop.simps[of t m b a] upt_conv_Cons)
qed

lemma retry_loop_sleep_raises:
  "a \<le> j \<Longrightarrow> int j < m - 1 \<Longrightarrow> \<forall>k. a \<le> k \<and> k \<le> j \<longrightarrow> isl (t k) \<Longrightarrow>
   \<forall>k. a \<le> k \<and> k < j \<longrightarrow> time_sleep (b * 2 ^ k) = None \<Longrightarrow>
   time_sleep (b * 2 ^ j) = Some se \<Longrightarrow>
   retry_loop t m b a =
     (Inl se, concat (map (\<lambda>k. [Attempt k, Sleep (b * 2 ^ k)]) [a..<j]) @ [Attempt j])"
proof (induction "j - a" arbitrary: a)
  case 0
  then have aj: "a = j" by simp
  from 0 obtain e where e: "t j = Inl e" by (metis isl_def order_refl aj)
  with 0 aj show ?case by (simp add: retry_loop.simps[of t m b j])
next
  case (Suc d)
  then have lt: "a < j" by simp
  with Suc.prems obtain e where e: "t a = Inl e" by (metis isl_def order_refl less_imp_le)
  have sl: "time_sleep (b * 2 ^ a) = None" using Suc.prems(4) lt by simp
  have IH: "retry_loop t m b (a + 1) =
     (Inl se, concat (map (\<lambda>k. [Attempt k, Sleep (b * 2 ^ k)]) [a + 1..<j]) @ [Attempt j])"
    using Suc.hyps(1)[of "a + 1"] Suc.hyps(2) Suc.prems lt by simp
  have "int a < m - 1" using lt Suc.prems by simp
  then show ?case
    using e IH lt sl by (simp add: retry_loop.simps[of t m b a] upt_conv_Cons)
qed

lemma trace_reindex:
  "concat (map (\<lambda>k. [Attempt k, Sleep (b * 2 ^ k)]) [0..<j]) @ [Attempt j] =
   Attempt 0 # concat (map (\<lambda>k. [Sleep (b * 2 ^ (k - 1)), Attempt k]) [1..<Suc j])"
  by (induction j) simp_all

text \<open>
  Claim C7. Every sleep the wrapper makes must be one \<^verbatim>\<open>time.sleep\<close> accepts: a delay
  from 0 to 9223372036. Then: if the first \<open>j\<close> calls of the transport raise and call
  \<open>j\<close> (counted from 0, with \<open>j < max_retries\<close>) returns, the wrapper returns that
  response, and what it did is: attempt 0, then for each \<open>k\<close> from 1 to \<open>j\<close> a sleep of
  \<open>base_delay_s * 2 ^ (k - 1)\<close> followed by attempt \<open>k\<close>. If every call raises (and
  \<open>max_retries\<close> is at least 1, so that there is a final attempt), it raises the exception
  of attempt \<open>max_retries - 1\<close> after attempts \<open>0 .. max_retries - 1\<close> with the same sleeps
  between them: none before the first and none after the last. If instead the sleep after
  a failed attempt \<open>j\<close> is refused, that exception is raised and no further attempt is
  made. The defaults are 5 and 1, and all their delays are accepted.
\<close>

theorem retry_wrapper_backoff:
  "(int j < max_retries \<and> (\<forall>k<j. isl (transport k)) \<and> transport j = Inr r \<and>
    (\<forall>k<j. time_sleep (base_delay_s * 2 ^ k) = None) \<longrightarrow>
      get_model_response transport max_retries base_delay_s =
        (Inr (Some r),
         Attempt 0 # concat (map (\<lambda>k. [Sleep (base_delay_s * 2 ^ (k - 1)), Attempt k]) [1..<Suc j]))) \<and>
   (0 < max_retries \<and> (\<forall>k. int k < max_retries \<longrightarrow> isl (transport k)) \<and>
    (\<forall>k. int k < max_retries - 1 \<longrightarrow> time_sleep (base_delay_s * 2 ^ k) = None) \<longrightarrow>
      get_model_response transport max_retries base_delay_s =
        (Inl (projl (transport (nat max_retries - 1))),
         Attempt 0 # concat (map (\<lambda>k. [Sleep (base_delay_s * 2 ^ (k - 1)), Attempt k])
                              [1..<nat max_retries]))) \<and>
   (int j < max_retries - 1 \<and> (\<forall>k\<le>j. isl (transport k)) \<and>
    (\<forall>k<j. time_sleep (base_delay_s * 2 ^ k) = None) \<and>
    time_sleep (base_delay_s * 2 ^ j) = Some sleep_error \<longrightarrow>
      get_model_response transport max_retries base_delay_s =
        (Inl sleep_error,
         Attempt 0 # concat (map (\<lambda>k. [Sleep (base_delay_s * 2 ^ (k - 1)), Attempt k]) [1..<Suc j]))) \<and>
   (time_sleep delay = None \<longleftrightarrow> 0 \<le> delay \<and> delay \<le> 9223372036) \<and>
   get_model_response_default transport = get_model_response transport 5 1 \<and>
   (\<forall>k<4. time_sleep (1 * 2 ^ k) = None)"
proof (intro conjI impI)
  assume a: "int j < max_retries \<and> (\<forall>k<j. isl (transport k)) \<and> transport j = Inr r \<and>
    (\<forall>k<j. time_sleep (base_delay_s * 2 ^ k) = None)"
  then have "retry_loop transport max_retries base_delay_s 0 =
     (Inr (Some r),
      concat (map (\<lambda>k. [Attempt k, Sleep (base_delay_s * 2 ^ k)]) [0..<j]) @ [Attempt j])"
    by (intro retry_loop_success) auto
  then show "get_model_response transport max_retries base_delay_s =
        (Inr (Some r),
         Attempt 0 # concat (map (\<lambda>k. [Sleep (base_delay_s * 2 ^ (k - 1)), Attempt k]) [1..<Suc j]))"
    by (simp only: get_model_response_def trace_reindex)
next
  assume a: "0 < max_retries \<and> (\<forall>k. int k < max_retries \<longrightarrow> isl (transport k)) \<and>
    (\<forall>k. int k < max_retries - 1 \<longrightarrow> time_sleep (base_delay_s * 2 ^ k) = None)"
  then have "retry_loop transport max_retries base_delay_s 0 =
     (Inl (projl (transport (nat max_retries - 1))),
      concat (map (\<lambda>k. [Attempt k, Sleep (base_delay_s * 2 ^ k)]) [0..<nat max_retries - 1])
        @ [Attempt (nat max_retries - 1)])"
    by (intro retry_loop_exhausted) auto
  moreover have "Suc (nat max_retries - 1) = nat max_retries" using a by simp
  ultimately show "get_model_response transport max_retries base_delay_s =
        (Inl (projl (transport (nat max_retries - 1))),
         Attempt 0 # concat (map (\<lambda>k. [Sleep (base_delay_s * 2 ^ (k - 1)), Attempt k])
                              [1..<nat max_retries]))"
    using trace_reindex[of base_delay_s "nat max_retries - 1"]
    by (simp only: get_model_response_def)
next
  assume a: "int j < max_retries - 1 \<and> (\<forall>k\<le>j. isl (transport k)) \<and>
    (\<forall>k<j. time_sleep (base_delay_s * 2 ^ k) = None) \<and>
    time_sleep (base_delay_s * 2 ^ j) = Some sleep_error"
  then have "retry_loop transport max_retries base_delay_s 0 =
     (Inl sleep_error,
      concat (map (\<lambda>k. [Attempt k, Sleep (base_delay_s * 2 ^ k)]) [0..<j]) @ [Attempt j])"
    by (intro retry_loop_sleep_raises) auto
  then show "get_model_response transport max_retries base_delay_s =
        (Inl sleep_error,
         Attempt 0 # concat (map (\<lambda>k. [Sleep (base_delay_s * 2 ^ (k - 1)), Attempt k]) [1..<Suc j]))"
    by (simp only: get_model_response_def trace_reindex)
next
  show "time_sleep delay = None \<longleftrightarrow> 0 \<le> delay \<and> delay \<le> 9223372036"
    by (auto simp: time_sleep_def)
next
  show "get_model_response_default transport = get_model_response transport 5 1"
    by (simp add: get_model_response_default_def)
next
  show "\<forall>k<4. time_sleep (1 * 2 ^ k) = None"
  proof (intro allI impI)
    fix k :: nat
    assume "k < 4"
    then have "(2::int) ^ k \<le> 2 ^ 4" by (intro power_increasing) simp_all
    then have "(2::int) ^ k \<le> 9223372036" by simp
    moreover have "0 \<le> (2::int) ^ k" by simp
    ultimately show "time_sleep (1 * 2 ^ k) = None" by (simp add: time_sleep_def)
  qed
qed

theorem retry_wrapper_backoff_witness:
  "get_model_response (\<lambda>k. if k < 4 then Inl (ModelError ''unavailable'') else Inr ''response'') 5 1 =
     (Inr (Some ''response''),
      [Attempt 0, Sleep 1, Attempt 1, Sleep 2, Attempt 2, Sleep 4, Attempt 3, Sleep 8, Attempt 4]) \<and>
   get_model_response (\<lambda>k. (Inl (ModelError (replicate k CHR ''x'')) :: error + string)) 3 7 =
     (Inl (ModelError ''xx''), [Attempt 0, Sleep 7, Attempt 1, Sleep 14, Attempt 2]) \<and>
   get_model_response (\<lambda>k. (Inl (ModelError ''unavailable'') :: error + string)) 3 (- 1) =
     (Inl (ValueError ''sleep length must be non-negative''), [Attempt 0])"
proof -
  have s1: "\<forall>k<4. time_sleep (1 * 2 ^ k) = None"
    using retry_wrapper_backoff[of 0 0 "\<lambda>k. Inl EOFError" "()" 0 EOFError 0]
    by simp
  have 1: "get_model_response (\<lambda>k. if k < 4 then Inl (ModelError ''unavailable'') else Inr ''response'') 5 1 =
     (Inr (Some ''response''),
      [Attempt 0, Sleep 1, Attempt 1, Sleep 2, Attempt 2, Sleep 4, Attempt 3, Sleep 8, Attempt 4])"
    using retry_wrapper_backoff[of 4 5 "\<lambda>k. if k < 4 then Inl (ModelError ''unavailable'') else Inr ''response''" "''response''" 1] s1
    by (simp add: upt_rec numeral_eq_Suc)
  have s2: "\<forall>k. int k < 3 - 1 \<longrightarrow> time_sleep (7 * 2 ^ k) = None"
  proof (intro allI impI)
    fix k :: nat assume "int k < 3 - 1"
    then have "k = 0 \<or> k = 1" by linarith
    then show "time_sleep (7 * 2 ^ k) = None" by (auto simp: time_sleep_def)
  qed
  have 2: "get_model_response (\<lambda>k. (Inl (ModelError (replicate k CHR ''x'')) :: error + string)) 3 7 =
     (Inl (ModelError ''xx''), [Attempt 0, Sleep 7, Attempt 1, Sleep 14, Attempt 2])"
    using retry_wrapper_backoff[of _ 3 "\<lambda>k. (Inl (ModelError (replicate k CHR ''x'')) :: error + string)" _ 7] s2
    by (simp add: upt_rec numeral_eq_Suc)
  have 3: "get_model_response (\<lambda>k. (Inl (ModelError ''unavailable'') :: error + string)) 3 (- 1) =
     (Inl (ValueError ''sleep length must be non-negative''), [Attempt 0])"
    using retry_wrapper_backoff[of 0 3 "\<lambda>k. (Inl (ModelError ''unavailable'') :: error + string)" _ "- 1"
        "ValueError ''sleep length must be non-negative''"]
    by (simp add: time_sleep_def)
  from 1 2 3 show ?thesis by simp
qed

section \<open>Properties of the safety confirmation\<close>

lemma not_accepted_empty: "\<not> accepted []"
  by (simp add: accepted_def str_lower_def)

lemma read_decision_skip:
  "\<not> accepted d \<Longrightarrow> \<forall>x\<in>set pre. \<not> accepted x \<Longrightarrow> accepted a \<Longrightarrow>
   read_decision d (pre @ a # rest) = Inr (a, rest)"
proof (induction pre arbitrary: d)
  case Nil
  then show ?case by (cases rest) simp_all
next
  case (Cons x pre)
  then show ?case by simp
qed

lemma read_decision_eof:
  "\<not> accepted d \<Longrightarrow> \<forall>x\<in>set xs. \<not> accepted x \<Longrightarrow> read_decision d xs = Inl EOFError"
  by (induction xs arbitrary: d) simp_all

lemmas lower_eval = accepted_def str_lower_def char_lower_def

text \<open>
  Claim C8. For a safety decision that is well formed (its decision is the
  confirmation sentinel and it has an explanation), the outcome depends on the trust mode
  and the console lines only. With trust mode on it is CONTINUE and no line is consumed.
  With trust mode off the lines before the first accepted one are consumed and skipped,
  the accepted one is consumed, and the outcome is TERMINATE exactly when its lower-case
  form is "n" or "no", CONTINUE otherwise; when no line is accepted there is no outcome
  (the console runs out). A line is accepted when its lower-case form is one of
  "y", "n", "yes", "no", "ye".
\<close>

theorem safety_gate_resolution:
  assumes "map_of safety ''decision'' = Some (VStr ''require_confirmation'')"
    and "map_of safety ''explanation'' = Some explanation"
  shows "get_safety_confirmation True safety inputs = Inr (CONTINUE, inputs) \<and>
     (\<forall>pre a rest. inputs = pre @ a # rest \<and> (\<forall>x\<in>set pre. \<not> accepted x) \<and> accepted a \<longrightarrow>
        get_safety_confirmation False safety inputs =
          Inr (if str_lower a = ''n'' \<or> str_lower a = ''no'' then TERMINATE else CONTINUE, rest)) \<and>
     ((\<forall>x\<in>set inputs. \<not> accepted x) \<longrightarrow>
        get_safety_confirmation False safety inputs = Inl EOFError) \<and>
     (\<forall>a. accepted a \<longleftrightarrow> str_lower a \<in> {''y'', ''n'', ''yes'', ''no'', ''ye''})"
proof (intro conjI allI impI)
  show "get_safety_confirmation True safety inputs = Inr (CONTINUE, inputs)"
    using assms by (simp add: get_safety_confirmation_def subscript_def)
next
  fix pre a rest
  assume a: "inputs = pre @ a # rest \<and> (\<forall>x\<in>set pre. \<not> accepted x) \<and> accepted a"
  then have "read_decision [] inputs = Inr (a, rest)"
    using read_decision_skip[OF not_accepted_empty, of pre a rest] by simp
  then show "get_safety_confirmation False safety inputs =
          Inr (if str_lower a = ''n'' \<or> str_lower a = ''no'' then TERMINATE else CONTINUE, rest)"
    using assms by (simp add: get_safety_confirmation_def subscript_def)
next
  assume "\<forall>x\<in>set inputs. \<not> accepted x"
  then have "read_decision [] inputs = Inl EOFError"
    using read_decision_eof[OF not_accepted_empty] by simp
  then show "get_safety_confirmation False safety inputs = Inl EOFError"
    using assms by (simp add: get_safety_confirmation_def subscript_def)
next
  fix a
  show "accepted a \<longleftrightarrow> str_lower a \<in> {''y'', ''n'', ''yes'', ''no'', ''ye''}"
    by (auto simp: accepted_def)
qed

theorem safety_gate_resolution_witness:
  "get_safety_confirmation True
      [(''decision'', VStr ''require_confirmation''), (''explanation'', VStr ''payment form'')]
      [''maybe'', ''NO'', ''y''] = Inr (CONTINUE, [''maybe'', ''NO'', ''y'']) \<and>
   get_safety_confirmation False
      [(''decision'', VStr ''require_confirmation''), (''explanation'', VStr ''payment form'')]
      [''maybe'', ''NO'', ''y''] = Inr (TERMINATE, [''y'']) \<and>
   get_safety_confirmation False
      [(''decision'', VStr ''require_confirmation''), (''explanation'', VStr ''payment form'')]
      [''maybe'', ''nope''] = Inl EOFError"
proof -
  let ?s = "[(''decision'', VStr ''require_confirmation''), (''explanation'', VStr ''payment form'')]"
  have d: "map_of ?s ''decision'' = Some (VStr ''require_confirmation'')" by simp
  have e: "map_of ?s ''explanation'' = Some (VStr ''payment form'')" by simp
  have n1: "\<not> accepted ''maybe''" by (simp add: lower_eval)
  have n2: "\<not> accepted ''nope''" by (simp add: lower_eval)
  have a1: "accepted ''NO''" by (simp add: lower_eval)
  have l1: "str_lower ''NO'' = ''no''" by (simp add: lower_eval)
  note th = safety_gate_resolution[OF d e]
  have 1: "get_safety_confirmation True ?s [''maybe'', ''NO'', ''y''] = Inr (CONTINUE, [''maybe'', ''NO'', ''y''])"
    by (rule th[of "[''maybe'', ''NO'', ''y'']", THEN conjunct1])
  have h: "[''maybe'', ''NO'', ''y''] = [''maybe''] @ ''NO'' # [''y''] \<and>
      (\<forall>x\<in>set [''maybe'']. \<not> accepted x) \<and> accepted ''NO''"
    using n1 a1 by simp
  have 2: "get_safety_confirmation False ?s [''maybe'', ''NO'', ''y''] = Inr (TERMINATE, [''y''])"
    using th[of "[''maybe'', ''NO'', ''y'']", THEN conjunct2, THEN conjunct1, rule_format, OF h] l1
    by simp
  have "\<forall>x\<in>set [''maybe'', ''nope'']. \<not> accepted x" using n1 n2 by simp
  then have 3: "get_safety_confirmation False ?s [''maybe'', ''nope''] = Inl EOFError"
    by (rule th[of "[''maybe'', ''nope'']", THEN conjunct2, THEN conjunct2, THEN conjunct1, THEN mp])
  from 1 2 3 show ?thesis by simp
qed

section \<open>Properties of the binary64 rounding and of denormalize\<close>

lemma pow2_powi: "pow2 e = 2 powi e"
  by (simp add: pow2_def power_int_def field_simps)

lemma pow2_pos: "0 < pow2 e"
  by (simp add: pow2_powi)

lemma pow2_add: "pow2 (a + b) = pow2 a * pow2 b"
  by (simp add: pow2_powi power_int_add)

lemma pow2_nat: "pow2 (int n) = 2 ^ n"
  by (simp add: pow2_powi)

lemma pow2_less_iff: "pow2 a < pow2 b \<longleftrightarrow> a < b"
proof
  assume "a < b" then show "pow2 a < pow2 b"
    by (simp add: pow2_powi power_int_strict_increasing)
next
  assume l: "pow2 a < pow2 b"
  show "a < b"
  proof (rule ccontr)
    assume "\<not> a < b"
    then have "b \<le> a" by simp
    then have "pow2 b \<le> pow2 a" by (simp add: pow2_powi power_int_increasing)
    with l show False by simp
  qed
qed

lemma pow2_le_iff: "pow2 a \<le> pow2 b \<longleftrightarrow> a \<le> b"
  using pow2_less_iff[of b a] by (auto simp: not_less[symmetric])

lemma binade_bounds:
  assumes "r \<noteq> 0"
  shows "pow2 (binade r) \<le> \<bar>r\<bar> \<and> \<bar>r\<bar> < pow2 (binade r + 1)"
proof (cases "1 \<le> \<bar>r\<bar>")
  case True
  define n where "n = \<lfloor>\<bar>r\<bar>\<rfloor>"
  have n1: "1 \<le> n" using True by (simp add: n_def le_floor_iff)
  then have npos: "0 < n" by simp
  from bitlen_bounds[OF npos]
  have b: "2 ^ nat (bitlen n - 1) \<le> n" "n < 2 ^ nat (bitlen n)" by simp_all
  have bl: "1 \<le> bitlen n" using npos by (simp add: bitlen_alt_def) 
  have e: "binade r = bitlen n - 1" using True by (simp add: binade_def n_def)
  have "pow2 (bitlen n - 1) = of_int (2 ^ nat (bitlen n - 1))"
    using bl by (simp add: pow2_def)
  also have "\<dots> \<le> of_int n" using b(1) by (simp only: of_int_le_iff)
  also have "\<dots> \<le> \<bar>r\<bar>" by (simp add: n_def)
  finally have lo: "pow2 (binade r) \<le> \<bar>r\<bar>" by (simp add: e)
  have "\<bar>r\<bar> < of_int (n + 1)" unfolding n_def by linarith
  also have "\<dots> \<le> of_int (2 ^ nat (bitlen n))" using b(2) by (simp only: of_int_le_iff; simp)
  also have "\<dots> = pow2 (bitlen n)" using bl by (simp add: pow2_def)
  finally have "\<bar>r\<bar> < pow2 (binade r + 1)" by (simp add: e)
  with lo show ?thesis by simp
next
  case False
  then have lt1: "\<bar>r\<bar> < 1" by simp
  have rpos: "0 < \<bar>r\<bar>" using assms by simp
  define n where "n = \<lceil>1 / \<bar>r\<bar>\<rceil>"
  define m where "m = n - 1"
  have inv: "1 < 1 / \<bar>r\<bar>" using lt1 rpos by (simp add: field_simps)
  have n2: "2 \<le> n" using inv unfolding n_def by linarith
  have mpos: "0 < m" using n2 by (simp add: m_def)
  from bitlen_bounds[OF mpos]
  have b: "2 ^ nat (bitlen m - 1) \<le> m" "m < 2 ^ nat (bitlen m)" by simp_all
  have bl: "1 \<le> bitlen m" using mpos by (simp add: bitlen_alt_def)
  have e: "binade r = - bitlen m" using False by (simp add: binade_def n_def m_def)
  have "1 / \<bar>r\<bar> \<le> of_int n" by (simp add: n_def)
  also have "of_int n \<le> (of_int (2 ^ nat (bitlen m)) :: rat)"
    using b(2) unfolding m_def by (simp only: of_int_le_iff; simp)
  finally have "1 / \<bar>r\<bar> \<le> 2 ^ nat (bitlen m)" by simp
  then have "1 / 2 ^ nat (bitlen m) \<le> \<bar>r\<bar>"
    using rpos by (simp add: field_simps)
  moreover have "pow2 (- bitlen m) = 1 / 2 ^ nat (bitlen m)"
    using bl by (simp add: pow2_def)
  ultimately have lo: "pow2 (binade r) \<le> \<bar>r\<bar>" by (simp add: e)
  have "(2::rat) ^ nat (bitlen m - 1) = of_int (2 ^ nat (bitlen m - 1))" by simp
  also have "\<dots> \<le> of_int m"
    using b(1) by (simp only: of_int_le_iff)
  also have "of_int m < 1 / \<bar>r\<bar>" unfolding m_def n_def by linarith
  finally have "2 ^ nat (bitlen m - 1) < 1 / \<bar>r\<bar>" .
  then have "\<bar>r\<bar> < 1 / 2 ^ nat (bitlen m - 1)"
    using rpos by (simp add: field_simps)
  moreover have "pow2 (- bitlen m + 1) = 1 / 2 ^ nat (bitlen m - 1)"
  proof (cases "bitlen m = 1")
    case True then show ?thesis by (simp add: pow2_def)
  next
    case False
    with bl have "- bitlen m + 1 < 0" by simp
    moreover have "nat (bitlen m - 1) = nat (- (- bitlen m + 1))" by simp
    ultimately show ?thesis by (simp add: pow2_def)
  qed
  ultimately have "\<bar>r\<bar> < pow2 (binade r + 1)" by (simp add: e)
  with lo show ?thesis by simp
qed

lemma binade_unique:
  assumes "pow2 k \<le> \<bar>r\<bar>" and "\<bar>r\<bar> < pow2 (k + 1)"
  shows "binade r = k"
proof -
  have "r \<noteq> 0" using assms(1) pow2_pos[of k] by auto
  from binade_bounds[OF this]
  have b: "pow2 (binade r) \<le> \<bar>r\<bar>" "\<bar>r\<bar> < pow2 (binade r + 1)" by simp_all
  have "pow2 (binade r) < pow2 (k + 1)" using b(1) assms(2) by simp
  then have 1: "binade r < k + 1" by (simp add: pow2_less_iff)
  have "pow2 k < pow2 (binade r + 1)" using b(2) assms(1) by simp
  then have 2: "k < binade r + 1" by (simp add: pow2_less_iff)
  from 1 2 show ?thesis by simp
qed

lemma round_half_even_of_int: "round_half_even (of_int n) = n"
  by (simp add: round_half_even_def)

lemma round_half_even_error: "\<bar>of_int (round_half_even x) - x\<bar> \<le> 1 / 2"
proof -
  have "of_int \<lfloor>x\<rfloor> \<le> x" "x < of_int \<lfloor>x\<rfloor> + 1" by linarith+
  then show ?thesis
    by (auto simp: round_half_even_def Let_def abs_le_iff)
qed

lemma pow2_numeral: "pow2 (numeral n) = 2 ^ numeral n"
  by (simp add: pow2_def)

lemma pow2_0: "pow2 0 = 1"
  by (simp add: pow2_def)

lemma float_round_unfold:
  assumes "r \<noteq> 0" and "k = max (binade r - 52) (- 1074)"
  shows "float_round r = of_int (round_half_even (r / pow2 k)) * pow2 k"
  using assms by (simp add: float_round_def Let_def)

lemma float_round_eqI:
  assumes "- 1074 \<le> k" and "pow2 (k + 52) \<le> \<bar>r\<bar>" and "\<bar>r\<bar> < pow2 (k + 53)"
  shows "float_round r = of_int (round_half_even (r / pow2 k)) * pow2 k"
proof -
  have b: "binade r = k + 52"
    using binade_unique[of "k + 52" r] assms by (simp add: add.commute add.left_commute)
  have "r \<noteq> 0" using assms(2) pow2_pos[of "k + 52"] by auto
  then show ?thesis
    using float_round_unfold[of r k] b assms(1) by simp
qed

lemma float_round_exact:
  assumes "r = of_int m * pow2 j" and "\<bar>m\<bar> < 2 ^ 53" and "- 1074 \<le> j"
  shows "float_round r = r"
proof (cases "r = 0")
  case True
  then show ?thesis by (simp add: float_round_def)
next
  case False
  define k where "k = max (binade r - 52) (- 1074)"
  have "\<bar>r\<bar> = of_int \<bar>m\<bar> * pow2 j"
    using assms(1) pow2_pos[of j] by (simp add: abs_mult)
  also have "\<dots> < of_int (2 ^ 53) * pow2 j"
    using assms(2) pow2_pos[of j] by (intro mult_strict_right_mono) (simp_all only: of_int_less_iff)
  also have "\<dots> = pow2 (j + 53)"
    by (simp add: pow2_add pow2_numeral)
  finally have "\<bar>r\<bar> < pow2 (j + 53)" .
  moreover have "pow2 (binade r) \<le> \<bar>r\<bar>" using binade_bounds[OF False] by simp
  ultimately have "pow2 (binade r) < pow2 (j + 53)" by simp
  then have "binade r < j + 53" by (simp add: pow2_less_iff)
  then have kj: "k \<le> j" using assms(3) by (simp add: k_def)
  have "pow2 j = pow2 (j - k) * pow2 k" by (simp add: pow2_add[symmetric])
  moreover have "pow2 (j - k) = of_int (2 ^ nat (j - k))" using kj by (simp add: pow2_def)
  ultimately have rk: "r / pow2 k = of_int (m * 2 ^ nat (j - k))"
    using assms(1) pow2_pos[of k] by simp
  have "float_round r = of_int (round_half_even (r / pow2 k)) * pow2 k"
    using float_round_unfold[OF False k_def] .
  also have "\<dots> = (r / pow2 k) * pow2 k"
    unfolding rk round_half_even_of_int ..
  also have "\<dots> = r" using pow2_pos[of k] by simp
  finally show ?thesis .
qed

lemma float_round_of_int:
  assumes "\<bar>n\<bar> \<le> 2 ^ 53"
  shows "float_round (of_int n) = of_int n"
proof (cases "\<bar>n\<bar> = 2 ^ 53")
  case True
  then have "n = 2 ^ 53 \<or> n = - (2 ^ 53)" by linarith
  then have "of_int n = (of_int (n div 2 ^ 53) :: rat) * pow2 53"
    by (auto simp: pow2_numeral)
  moreover have "\<bar>n div 2 ^ 53\<bar> < 2 ^ 53" using \<open>n = 2 ^ 53 \<or> n = - (2 ^ 53)\<close> by auto
  ultimately show ?thesis by (intro float_round_exact[of _ "n div 2 ^ 53" 53]) simp_all
next
  case False
  with assms have "\<bar>n\<bar> < 2 ^ 53" by simp
  then show ?thesis by (intro float_round_exact[of _ n 0]) (simp_all add: pow2_0)
qed

lemma float_round_error:
  assumes "pow2 (- 1022) \<le> \<bar>r\<bar>"
  shows "\<bar>float_round r - r\<bar> \<le> \<bar>r\<bar> / 2 ^ 53"
proof -
  have nz: "r \<noteq> 0" using assms pow2_pos[of "- 1022"] by auto
  define e where "e = binade r"
  define k where "k = max (e - 52) (- 1074)"
  have b: "pow2 e \<le> \<bar>r\<bar>" "\<bar>r\<bar> < pow2 (e + 1)"
    using binade_bounds[OF nz] by (simp_all add: e_def)
  have "pow2 (- 1022) < pow2 (e + 1)" using assms b(2) by simp
  then have "- 1022 < e + 1" by (simp add: pow2_less_iff)
  then have k: "k = e - 52" by (simp add: k_def)
  have fr: "float_round r = of_int (round_half_even (r / pow2 k)) * pow2 k"
    using float_round_unfold[OF nz] by (simp add: k_def e_def)
  have "float_round r - r = (of_int (round_half_even (r / pow2 k)) - r / pow2 k) * pow2 k"
    using pow2_pos[of k] by (simp add: fr algebra_simps)
  then have "\<bar>float_round r - r\<bar> = \<bar>of_int (round_half_even (r / pow2 k)) - r / pow2 k\<bar> * pow2 k"
    using pow2_pos[of k] by (simp add: abs_mult)
  also have "\<dots> \<le> (1 / 2) * pow2 k"
    using round_half_even_error[of "r / pow2 k"] pow2_pos[of k]
    by (intro mult_right_mono) simp_all
  also have "\<dots> = pow2 e / 2 ^ 53"
  proof -
    have "pow2 e = pow2 k * pow2 52" unfolding k by (simp add: pow2_add[symmetric])
    then show ?thesis by (simp add: pow2_numeral)
  qed
  also have "\<dots> \<le> \<bar>r\<bar> / 2 ^ 53" using b(1) by (simp add: divide_right_mono)
  finally show ?thesis .
qed

lemma not_overflows: "\<bar>r\<bar> \<le> 2 ^ 64 \<Longrightarrow> \<not> overflows r"
proof -
  assume a: "\<bar>r\<bar> \<le> 2 ^ 64"
  have "(2::rat) ^ 64 < 2 ^ 1024" by (rule power_strict_increasing) simp_all
  with a have "\<bar>r\<bar> < 2 ^ 1024" by (rule le_less_trans)
  then show ?thesis unfolding overflows_def by (simp only: not_le)
qed

lemma denormalize_eval:
  assumes "float_round (of_int v / 1000) = q" and "\<bar>q\<bar> \<le> 2 ^ 64"
    and "\<bar>d\<bar> \<le> 2 ^ 53"
    and "float_round (q * of_int d) = p" and "\<bar>p\<bar> \<le> 2 ^ 64"
  shows "denormalize v d = Inr (if 0 \<le> p then \<lfloor>p\<rfloor> else \<lceil>p\<rceil>)"
proof -
  have s: "float_round (of_int d) = of_int d" using assms(3) by (rule float_round_of_int)
  have "\<bar>(of_int d :: rat)\<bar> \<le> 2 ^ 53"
  proof -
    have "(of_int \<bar>d\<bar> :: rat) \<le> of_int (2 ^ 53)" using assms(3) by (simp only: of_int_le_iff)
    then show ?thesis by simp
  qed
  moreover have "(2::rat) ^ 53 \<le> 2 ^ 64" by (rule power_increasing) simp_all
  ultimately have "\<bar>(of_int d :: rat)\<bar> \<le> 2 ^ 64" by (rule order_trans)
  then have os: "\<not> overflows (of_int d)" by (rule not_overflows)
  have oq: "\<not> overflows q" using assms(2) by (rule not_overflows)
  have op: "\<not> overflows p" using assms(5) by (rule not_overflows)
  have 1: "int_true_div v 1000 = Inr q"
    using assms(1) oq by (simp add: int_true_div_def Let_def)
  have 2: "int_to_float d = Inr (of_int d)"
    using s os by (simp add: int_to_float_def Let_def)
  have 3: "float_mul q (of_int d) = Some p"
    using assms(4) op by (simp add: float_mul_def Let_def)
  show ?thesis
    unfolding denormalize_def 1 2 by (simp add: 3 float_to_int_def)
qed

lemma denormalize_multiple:
  assumes "\<bar>k\<bar> < 2 ^ 53" and "\<bar>d\<bar> \<le> 2 ^ 53" and "\<bar>k * d\<bar> < 2 ^ 53"
  shows "denormalize (1000 * k) d = Inr (k * d)"
proof -
  have le: "(2::int) ^ 53 \<le> 2 ^ 64" by (rule power_increasing) simp_all
  have p: "float_round (of_int k * of_int d) = of_int (k * d)"
    using float_round_of_int[of "k * d"] assms(3) by simp
  have q: "float_round (of_int (1000 * k) / 1000) = of_int k"
    using float_round_of_int[of k] assms(1) by simp
  have bq: "\<bar>(of_int k :: rat)\<bar> \<le> 2 ^ 64"
  proof -
    have "\<bar>k\<bar> \<le> 2 ^ 64" using assms(1) le by linarith
    then have "(of_int \<bar>k\<bar> :: rat) \<le> of_int (2 ^ 64)" by (simp only: of_int_le_iff)
    then show ?thesis by simp
  qed
  have bp: "\<bar>(of_int (k * d) :: rat)\<bar> \<le> 2 ^ 64"
  proof -
    have "\<bar>k * d\<bar> \<le> 2 ^ 64" using assms(3) le by linarith
    then have "(of_int \<bar>k * d\<bar> :: rat) \<le> of_int (2 ^ 64)" by (simp only: of_int_le_iff)
    then show ?thesis by simp
  qed
  from denormalize_eval[OF q bq assms(2) p bp] show ?thesis
    by (simp only: floor_of_int ceiling_of_int if_cancel)
qed


lemma round_half_even_eqI:
  assumes "\<bar>x - of_int n\<bar> < 1 / 2"
  shows "round_half_even x = n"
proof -
  define f where "f = \<lfloor>x\<rfloor>"
  have fl: "of_int f \<le> x" "x < of_int f + 1" unfolding f_def by linarith+
  from assms have n: "x - 1 / 2 < of_int n" "of_int n < x + 1 / 2" by linarith+
  have "(of_int n :: rat) < of_int (f + 2)" using n(2) fl(2) by simp
  then have u: "n < f + 2" by (simp only: of_int_less_iff)
  have "(of_int (f - 1) :: rat) < of_int n" using n(1) fl(1) by simp
  then have l: "f - 1 < n" by (simp only: of_int_less_iff)
  from u l have c: "n = f \<or> n = f + 1" by linarith
  show ?thesis
  proof (cases "x - of_int f < 1 / 2")
    case True
    then have "n \<noteq> f + 1" using n(2) by auto
    with c True show ?thesis by (simp add: round_half_even_def Let_def f_def)
  next
    case False
    then have "n \<noteq> f" using n(1) by auto
    with c have nf: "n = f + 1" by simp
    have "x - of_int f \<noteq> 1 / 2" using n(2) nf by auto
    with False nf show ?thesis by (simp add: round_half_even_def Let_def f_def)
  qed
qed

lemma float_round_computeI:
  assumes "- 1074 \<le> k" and "pow2 (k + 52) \<le> \<bar>r\<bar>" and "\<bar>r\<bar> < pow2 (k + 53)"
    and "\<bar>r / pow2 k - of_int n\<bar> < 1 / 2"
  shows "float_round r = of_int n * pow2 k"
  using float_round_eqI[OF assms(1-3)] round_half_even_eqI[OF assms(4)] by simp

lemma float_round_175_1000: "float_round (175 / 1000) = 6305039478318694 * pow2 (- 55)"
  using float_round_computeI[of "- 55" "175 / 1000" 6305039478318694]
  by (simp add: pow2_def)

lemma float_round_175_1440:
  "float_round (6305039478318694 * pow2 (- 55) * 1440) = 8866461766385663 * pow2 (- 45)"
  using float_round_computeI[of "- 45" "6305039478318694 * pow2 (- 55) * 1440" 8866461766385663]
  by (simp add: pow2_def)

lemma denormalize_175_1440: "denormalize 175 1440 = Inr 251"
proof -
  have q: "float_round (of_int 175 / 1000) = 6305039478318694 * pow2 (- 55)"
    using float_round_175_1000 by simp
  have p: "float_round (6305039478318694 * pow2 (- 55) * of_int 1440) = 8866461766385663 * pow2 (- 45)"
    using float_round_175_1440 by simp
  have "denormalize 175 1440 =
     Inr (if 0 \<le> 8866461766385663 * pow2 (- 45) then \<lfloor>8866461766385663 * pow2 (- 45)\<rfloor>
          else \<lceil>8866461766385663 * pow2 (- 45)\<rceil>)"
    by (rule denormalize_eval[OF q _ _ p]) (simp_all add: pow2_def)
  moreover have "\<lfloor>8866461766385663 * pow2 (- 45)\<rfloor> = 251"
    by (rule floor_unique) (simp_all add: pow2_def)
  moreover have "0 \<le> 8866461766385663 * pow2 (- 45)" by (simp add: pow2_def)
  ultimately show ?thesis by simp
qed

lemma pow2_tiny: "pow2 (- 1022) \<le> 1 / 2048"
proof -
  have "pow2 (- 1022) \<le> pow2 (- 11)" by (simp add: pow2_le_iff)
  also have "pow2 (- 11) = 1 / 2048" by (simp add: pow2_def)
  finally show ?thesis .
qed

lemma abs_of_int_ge_one: "n \<noteq> 0 \<Longrightarrow> 1 \<le> \<bar>(of_int n :: rat)\<bar>"
proof -
  assume "n \<noteq> 0"
  then have "1 \<le> \<bar>n\<bar>" by simp
  then have "(of_int 1 :: rat) \<le> of_int \<bar>n\<bar>" by (simp only: of_int_le_iff)
  then show ?thesis by simp
qed

lemma float_round_rel:
  assumes "pow2 (- 1022) \<le> \<bar>r\<bar>"
  shows "\<bar>float_round r - r\<bar> \<le> \<bar>r\<bar> / 2 ^ 53"
    and "\<bar>float_round r\<bar> \<le> 2 * \<bar>r\<bar>"
    and "\<bar>r\<bar> / 2 \<le> \<bar>float_round r\<bar>"
proof -
  show e: "\<bar>float_round r - r\<bar> \<le> \<bar>r\<bar> / 2 ^ 53" using assms by (rule float_round_error)
  have h: "\<bar>r\<bar> / 2 ^ 53 \<le> \<bar>r\<bar> / 2" by (simp add: field_simps)
  from e h show "\<bar>float_round r\<bar> \<le> 2 * \<bar>r\<bar>" by linarith
  from e h show "\<bar>r\<bar> / 2 \<le> \<bar>float_round r\<bar>" by linarith
qed

lemma denormalize_approx:
  assumes d53: "\<bar>d\<bar> \<le> 2 ^ 53" and vnz: "v \<noteq> 0" and dnz: "d \<noteq> 0"
    and b: "\<bar>v * d\<bar> \<le> 1000 * 2 ^ 41"
  shows "\<exists>p::rat. denormalize v d = Inr (if 0 \<le> p then \<lfloor>p\<rfloor> else \<lceil>p\<rceil>) \<and>
     \<bar>p - of_int (v * d) / 1000\<bar> \<le> 3 * \<bar>of_int (v * d) / 1000\<bar> / 2 ^ 53"
proof -
  define x :: rat where "x = of_int v / 1000"
  define D :: rat where "D = of_int d"
  define q where "q = float_round x"
  define y where "y = q * D"
  define p where "p = float_round y"
  define E where "E = x * D"
  have E: "E = of_int (v * d) / 1000" by (simp add: E_def x_def D_def)
  have D1: "1 \<le> \<bar>D\<bar>" unfolding D_def using dnz by (rule abs_of_int_ge_one)
  have "1 \<le> \<bar>(of_int v :: rat)\<bar>" using vnz by (rule abs_of_int_ge_one)
  then have xlo: "1 / 1000 \<le> \<bar>x\<bar>" by (simp add: x_def)
  with pow2_tiny have xn: "pow2 (- 1022) \<le> \<bar>x\<bar>" by linarith
  note qx = float_round_rel[OF xn, folded q_def]
  have absE: "\<bar>E\<bar> = \<bar>x\<bar> * \<bar>D\<bar>" by (simp add: E_def abs_mult)
  have absy: "\<bar>y\<bar> = \<bar>q\<bar> * \<bar>D\<bar>" by (simp add: y_def abs_mult)
  have xE: "\<bar>x\<bar> \<le> \<bar>E\<bar>"
    unfolding absE using D1 mult_left_mono[of 1 "\<bar>D\<bar>" "\<bar>x\<bar>"] by simp
  have "\<bar>x\<bar> / 2 * 1 \<le> \<bar>q\<bar> * \<bar>D\<bar>"
    using qx(3) D1 by (intro mult_mono) simp_all
  then have ylo: "1 / 2000 \<le> \<bar>y\<bar>" using xlo absy by simp
  with pow2_tiny have yn: "pow2 (- 1022) \<le> \<bar>y\<bar>" by linarith
  note py = float_round_rel[OF yn, folded p_def]
  have yhi: "\<bar>y\<bar> \<le> 2 * \<bar>E\<bar>"
  proof -
    have "\<bar>q\<bar> * \<bar>D\<bar> \<le> (2 * \<bar>x\<bar>) * \<bar>D\<bar>" using qx(2) by (intro mult_right_mono) simp_all
    then show ?thesis by (simp add: absy absE)
  qed
  have yE: "\<bar>y - E\<bar> \<le> \<bar>E\<bar> / 2 ^ 53"
  proof -
    have "y - E = (q - x) * D" by (simp add: y_def E_def algebra_simps)
    then have "\<bar>y - E\<bar> = \<bar>q - x\<bar> * \<bar>D\<bar>" by (simp add: abs_mult)
    also have "\<dots> \<le> (\<bar>x\<bar> / 2 ^ 53) * \<bar>D\<bar>" using qx(1) by (intro mult_right_mono) simp_all
    also have "\<dots> = \<bar>E\<bar> / 2 ^ 53" by (simp add: absE)
    finally show ?thesis .
  qed
  have "\<bar>y\<bar> / 2 ^ 53 \<le> (2 * \<bar>E\<bar>) / 2 ^ 53" using yhi by (rule divide_right_mono) simp
  with py(1) yE have pE: "\<bar>p - E\<bar> \<le> 3 * \<bar>E\<bar> / 2 ^ 53" by linarith
  have Eb: "\<bar>E\<bar> \<le> 2 ^ 41"
  proof -
    have "(of_int \<bar>v * d\<bar> :: rat) \<le> of_int (1000 * 2 ^ 41)" using b by (simp only: of_int_le_iff)
    then show ?thesis by (simp add: E)
  qed
  have pw: "4 * (2::rat) ^ 41 \<le> 2 ^ 64" by simp
  have Epos: "0 \<le> \<bar>E\<bar>" by simp
  have qb: "\<bar>q\<bar> \<le> 2 ^ 64" using qx(2) xE Eb pw Epos by linarith
  have pb: "\<bar>p\<bar> \<le> 2 ^ 64" using py(2) yhi Eb pw Epos by linarith
  have "denormalize v d = Inr (if 0 \<le> p then \<lfloor>p\<rfloor> else \<lceil>p\<rceil>)"
    by (rule denormalize_eval[OF _ qb d53 _ pb]) (simp_all add: q_def x_def p_def y_def D_def)
  with pE show ?thesis unfolding E by blast
qed

lemma denormalize_floor_or_below:
  assumes "0 \<le> v" and "0 \<le> d" and "d \<le> 2 ^ 53" and "v \<le> 1000 * 2 ^ 41"
    and "v * d \<le> 1000 * 2 ^ 41"
  shows "\<exists>k. denormalize v d = Inr k \<and>
     (k = v * d div 1000 \<or> (k = v * d div 1000 - 1 \<and> 1000 dvd v * d \<and> 0 < v * d))"
proof (cases "v = 0")
  case True
  have "denormalize (1000 * 0) d = Inr (0 * d)"
    using assms(2,3) by (intro denormalize_multiple) simp_all
  with True show ?thesis by simp
next
  case vnz: False
  show ?thesis
  proof (cases "d = 0")
    case True
    define x :: rat where "x = of_int v / 1000"
    have "1 \<le> \<bar>(of_int v :: rat)\<bar>" using vnz by (rule abs_of_int_ge_one)
    then have "1 / 1000 \<le> \<bar>x\<bar>" by (simp add: x_def)
    with pow2_tiny have "pow2 (- 1022) \<le> \<bar>x\<bar>" by linarith
    from float_round_rel(2)[OF this] have q2: "\<bar>float_round x\<bar> \<le> 2 * \<bar>x\<bar>" .
    have "(of_int v :: rat) \<le> of_int (1000 * 2 ^ 41)" using assms(4) by (simp only: of_int_le_iff)
    then have "\<bar>x\<bar> \<le> 2 ^ 41" using assms(1) by (simp add: x_def)
    moreover have "2 * (2::rat) ^ 41 \<le> 2 ^ 64" by simp
    ultimately have qb: "\<bar>float_round x\<bar> \<le> 2 ^ 64" using q2 by linarith
    have q: "float_round (of_int v / 1000) = float_round x" by (simp add: x_def)
    have pz: "float_round (float_round x * of_int 0) = 0" by (simp add: float_round_def)
    have "denormalize v 0 = Inr (if 0 \<le> (0::rat) then \<lfloor>0::rat\<rfloor> else \<lceil>0::rat\<rceil>)"
      by (rule denormalize_eval[OF q qb _ pz]) simp_all
    with True show ?thesis by simp
  next
    case dnz: False
    have vd: "0 < v * d" using assms(1,2) vnz dnz by (simp add: mult_pos_pos)
    have "\<bar>d\<bar> \<le> 2 ^ 53" "\<bar>v * d\<bar> \<le> 1000 * 2 ^ 41" using assms vd by simp_all
    from denormalize_approx[OF this(1) vnz dnz this(2)]
    obtain p :: rat where p: "denormalize v d = Inr (if 0 \<le> p then \<lfloor>p\<rfloor> else \<lceil>p\<rceil>)"
      and pe: "\<bar>p - of_int (v * d) / 1000\<bar> \<le> 3 * \<bar>of_int (v * d) / 1000\<bar> / 2 ^ 53"
      by blast
    define E :: rat where "E = of_int (v * d) / 1000"
    define F where "F = v * d div 1000"
    define m where "m = v * d mod 1000"
    have "(0::rat) < of_int (v * d)" using vd by (simp only: of_int_0_less_iff)
    then have Epos: "0 < E" unfolding E_def by (rule divide_pos_pos) simp
    have "(of_int (v * d) :: rat) \<le> of_int (1000 * 2 ^ 41)"
      using assms(5) by (simp only: of_int_le_iff)
    then have Eb: "E \<le> 2 ^ 41" by (simp add: E_def)
    have "3 * E / 2 ^ 53 \<le> 3 * 2 ^ 41 / 2 ^ 53"
      using Eb by (intro divide_right_mono mult_left_mono) simp_all
    also have "\<dots> < (1 / 1000 :: rat)" by simp
    finally have small: "3 * E / 2 ^ 53 < 1 / 1000" .
    have pe': "\<bar>p - E\<bar> \<le> 3 * E / 2 ^ 53" using pe Epos by (simp add: E_def)
    have "3 * E / 2 ^ 53 < E" using Epos by (simp add: field_simps)
    with pe' have ppos: "0 < p" by linarith
    have "v * d = 1000 * F + m" by (simp add: F_def m_def)
    then have "(of_int (v * d) :: rat) = of_int (1000 * F + m)" by simp
    then have EF: "E = of_int F + of_int m / 1000" by (simp add: E_def)
    have m0: "0 \<le> m" and m1: "m < 1000" by (simp_all add: m_def)
    have res: "denormalize v d = Inr \<lfloor>p\<rfloor>" using p ppos by simp
    show ?thesis
    proof (cases "m = 0")
      case True
      then have dv: "1000 dvd v * d" by (simp add: m_def dvd_eq_mod_eq_0)
      from True EF have "E = of_int F" by simp
      with pe' small have "of_int F - 1 < p" "p < of_int F + 1" by linarith+
      then have "of_int (F - 1) \<le> p" "p < of_int (F + 1)" by simp_all
      then have "F - 1 \<le> \<lfloor>p\<rfloor>" "\<lfloor>p\<rfloor> < F + 1" by (simp_all only: le_floor_iff floor_less_iff)
      then have "\<lfloor>p\<rfloor> = F \<or> \<lfloor>p\<rfloor> = F - 1" by linarith
      with res dv vd show ?thesis unfolding F_def by auto
    next
      case False
      with m0 have "1 \<le> m" by simp
      then have "(of_int 1 :: rat) \<le> of_int m" by (simp only: of_int_le_iff)
      then have lo: "1 / 1000 \<le> (of_int m :: rat) / 1000" by simp
      from m1 have "m \<le> 999" by simp
      then have "(of_int m :: rat) \<le> of_int 999" by (simp only: of_int_le_iff)
      then have hi: "(of_int m :: rat) / 1000 \<le> 999 / 1000" by simp
      from pe' small EF lo hi have "of_int F \<le> p" "p < of_int F + 1" by linarith+
      then have "\<lfloor>p\<rfloor> = F" by (rule floor_unique)
      with res show ?thesis unfolding F_def by simp
    qed
  qed
qed

text \<open>
  Claim C9, as amended. \<^verbatim>\<open>int(v / 1000 * d)\<close> is evaluated in binary64, so for
  \<open>0 \<le> v\<close> and \<open>0 \<le> d\<close> (with \<open>v * d \<le> 1000 * 2 ^ 41\<close>, far beyond any screen) the
  result is \<open>v * d div 1000\<close>, or one less than that, which can only happen when \<open>v * d\<close>
  is a positive multiple of 1000. At the ends it is exact: 0 gives 0 and 1000 gives \<open>d\<close>.
  No value is rejected or clamped: a multiple \<open>1000 * n\<close> gives \<open>n * d\<close>, whatever the
  sign or size of \<open>n\<close> within the range of exact integers, and the bound on \<open>v\<close> in the
  first part is not 1000. The two methods apply this to the width and the height.
\<close>

theorem denormalize_floor_up_to_rounding:
  "(0 \<le> v \<and> 0 \<le> d \<and> d \<le> 2 ^ 53 \<and> v \<le> 1000 * 2 ^ 41 \<and> v * d \<le> 1000 * 2 ^ 41 \<longrightarrow>
      (\<exists>k. denormalize v d = Inr k \<and>
           (k = v * d div 1000 \<or> (k = v * d div 1000 - 1 \<and> 1000 dvd v * d \<and> 0 < v * d)))) \<and>
   (\<bar>d\<bar> \<le> 2 ^ 53 \<longrightarrow> denormalize 0 d = Inr 0) \<and>
   (\<bar>d\<bar> < 2 ^ 53 \<longrightarrow> denormalize 1000 d = Inr d) \<and>
   (\<bar>n\<bar> < 2 ^ 53 \<and> \<bar>d\<bar> \<le> 2 ^ 53 \<and> \<bar>n * d\<bar> < 2 ^ 53 \<longrightarrow>
      denormalize (1000 * n) d = Inr (n * d)) \<and>
   denormalize_x (w, h) (VInt v) = denormalize v w \<and>
   denormalize_y (w, h) (VInt v) = denormalize v h"
proof (intro conjI impI)
  assume "0 \<le> v \<and> 0 \<le> d \<and> d \<le> 2 ^ 53 \<and> v \<le> 1000 * 2 ^ 41 \<and> v * d \<le> 1000 * 2 ^ 41"
  then show "\<exists>k. denormalize v d = Inr k \<and>
           (k = v * d div 1000 \<or> (k = v * d div 1000 - 1 \<and> 1000 dvd v * d \<and> 0 < v * d))"
    by (intro denormalize_floor_or_below) simp_all
next
  assume "\<bar>d\<bar> \<le> 2 ^ 53"
  then have "denormalize (1000 * 0) d = Inr (0 * d)" by (intro denormalize_multiple) simp_all
  then show "denormalize 0 d = Inr 0" by simp
next
  assume "\<bar>d\<bar> < 2 ^ 53"
  then have "denormalize (1000 * 1) d = Inr (1 * d)" by (intro denormalize_multiple) simp_all
  then show "denormalize 1000 d = Inr d" by simp
next
  assume "\<bar>n\<bar> < 2 ^ 53 \<and> \<bar>d\<bar> \<le> 2 ^ 53 \<and> \<bar>n * d\<bar> < 2 ^ 53"
  then show "denormalize (1000 * n) d = Inr (n * d)" by (intro denormalize_multiple) simp_all
next
  show "denormalize_x (w, h) (VInt v) = denormalize v w"
    by (simp add: denormalize_x_def as_int_def)
next
  show "denormalize_y (w, h) (VInt v) = denormalize v h"
    by (simp add: denormalize_y_def as_int_def)
qed

theorem denormalize_floor_up_to_rounding_witness:
  "denormalize 1000 1440 = Inr 1440 \<and> denormalize 0 900 = Inr 0 \<and>
   denormalize 2000 1440 = Inr 2880 \<and> denormalize (- 1000) 900 = Inr (- 900) \<and>
   (\<exists>k. denormalize 500 1440 = Inr k \<and> (k = 720 \<or> k = 719))"
proof -
  have 1: "denormalize 1000 1440 = Inr 1440"
    using denormalize_floor_up_to_rounding[of 0 1440 0] by simp
  have 2: "denormalize 0 900 = Inr 0"
    using denormalize_floor_up_to_rounding[of 0 900 0] by simp
  have 3: "denormalize 2000 1440 = Inr 2880"
    using denormalize_floor_up_to_rounding[of 0 1440 2] by simp
  have 4: "denormalize (- 1000) 900 = Inr (- 900)"
    using denormalize_floor_up_to_rounding[of 0 900 "- 1"] by simp
  have 5: "\<exists>k. denormalize 500 1440 = Inr k \<and> (k = 720 \<or> k = 719)"
    using denormalize_floor_up_to_rounding[of 500 1440 0] by auto
  from 1 2 3 4 5 show ?thesis by simp
qed

text \<open>
  The equation of claim C9 with the exact floor fails inside the range, on a screen
  1440 wide: 175 gives 251, and \<open>\<lfloor>175 / 1000 * 1440\<rfloor> = 252\<close>.
\<close>

theorem denormalize_not_exact_floor:
  "denormalize 175 1440 = Inr 251 \<and> \<lfloor>(175 :: rat) / 1000 * 1440\<rfloor> = 252"
proof -
  have "\<lfloor>(175 :: rat) / 1000 * 1440\<rfloor> = 252" by (rule floor_unique) simp_all
  with denormalize_175_1440 show ?thesis by simp
qed

lemma denormalize_half:
  assumes "\<bar>d\<bar> < 2 ^ 53" and "even d"
  shows "denormalize 500 d = Inr (d div 2)"
proof -
  have q: "float_round (of_int 500 / 1000) = 1 / 2"
    using float_round_exact[of "1 / 2" 1 "- 1"] by (simp add: pow2_def)
  from assms(2) obtain c where c: "d = 2 * c" by (auto elim: evenE)
  have h: "(1 / 2 :: rat) * of_int d = of_int (d div 2)" by (simp add: c)
  have "\<bar>d div 2\<bar> \<le> 2 ^ 53" using assms(1) c by simp
  then have p: "float_round (1 / 2 * of_int d) = of_int (d div 2)"
    unfolding h by (rule float_round_of_int)
  have b: "\<bar>(of_int (d div 2) :: rat)\<bar> \<le> 2 ^ 64"
  proof -
    have "\<bar>d div 2\<bar> \<le> 2 ^ 64" using assms(1) c by simp
    then have "(of_int \<bar>d div 2\<bar> :: rat) \<le> of_int (2 ^ 64)" by (simp only: of_int_le_iff)
    then show ?thesis by simp
  qed
  have "\<bar>d\<bar> \<le> 2 ^ 53" using assms(1) by simp
  from denormalize_eval[OF q _ this p b] show ?thesis
    by (simp only: floor_of_int ceiling_of_int if_cancel) simp
qed

lemma denormalize_500_1440: "denormalize 500 1440 = Inr 720"
  using denormalize_half[of 1440] by simp

lemma denormalize_500_900: "denormalize 500 900 = Inr 450"
  using denormalize_half[of 900] by simp

section \<open>Properties of the action dispatcher\<close>

lemma on_ok_Inr: "on_ok m f = Inr z \<Longrightarrow> \<exists>x. m = Inr x \<and> f x = Inr z"
  by (cases m) (simp_all add: on_ok_def)

lemma on_ok_simps [simp]: "on_ok (Inr x) f = f x" "on_ok (Inl e) f = Inl e"
  by (simp_all add: on_ok_def)

lemma handle_action_type_text:
  assumes "fc_name action = ''type_text_at''"
    and "fc_args action = Some d"
    and "on_ok (subscript d ''x'') (denormalize_x (screen_size c)) = Inr px"
    and "on_ok (subscript d ''y'') (denormalize_y (screen_size c)) = Inr py"
    and "map_of d ''text'' = Some text"
  shows "handle_action c env s action =
     invoke c s (Type_text_at px py (substitute_text (temp_credentials s) text)
       (case map_of d ''press_enter'' of None \<Rightarrow> VBool False | Some v \<Rightarrow> v)
       (case map_of d ''clear_before_typing'' of None \<Rightarrow> VBool True | Some v \<Rightarrow> v))"
  using assms by (simp add: handle_action_def arg_def arg_get_def subscript_def)

lemma substitute_text_cases:
  "(text = VStr ''{{USERNAME}}'' \<and> map_of creds ''username'' = Some u \<longrightarrow>
      substitute_text creds text = u) \<and>
   (text = VStr ''{{PASSWORD}}'' \<and> map_of creds ''password'' = Some p \<longrightarrow>
      substitute_text creds text = p) \<and>
   (\<not> (text = VStr ''{{USERNAME}}'' \<and> map_of creds ''username'' \<noteq> None) \<and>
    \<not> (text = VStr ''{{PASSWORD}}'' \<and> map_of creds ''password'' \<noteq> None) \<longrightarrow>
      substitute_text creds text = text)"
  by (auto simp: substitute_text_def split: option.splits)

lemma invoke_frame:
  "invoke c s call = Inr (r, s') \<Longrightarrow>
   s' = s\<lparr>calls := calls s @ [call]\<rparr>"
  by (auto simp: invoke_def)

text \<open>
  Claim C3. For a type\_text\_at call whose coordinates denormalize, the browser's
  type\_text\_at is called with the stored username when the text is \<open>{{USERNAME}}\<close> and
  the credentials hold a username, with the stored password when the text is
  \<open>{{PASSWORD}}\<close> and the credentials hold a password, and with the text as it came in
  every other case (another text, or no such entry: the credentials start empty).
\<close>

theorem type_text_placeholder_substitution:
  assumes "fc_name action = ''type_text_at''"
    and "fc_args action = Some d"
    and "on_ok (subscript d ''x'') (denormalize_x (screen_size c)) = Inr px"
    and "on_ok (subscript d ''y'') (denormalize_y (screen_size c)) = Inr py"
    and "map_of d ''text'' = Some text"
    and "press_enter = (case map_of d ''press_enter'' of None \<Rightarrow> VBool False | Some v \<Rightarrow> v)"
    and "clear = (case map_of d ''clear_before_typing'' of None \<Rightarrow> VBool True | Some v \<Rightarrow> v)"
  shows
    "(text = VStr ''{{USERNAME}}'' \<and> map_of (temp_credentials s) ''username'' = Some u \<longrightarrow>
        handle_action c env s action = invoke c s (Type_text_at px py u press_enter clear)) \<and>
     (text = VStr ''{{PASSWORD}}'' \<and> map_of (temp_credentials s) ''password'' = Some p \<longrightarrow>
        handle_action c env s action = invoke c s (Type_text_at px py p press_enter clear)) \<and>
     (\<not> (text = VStr ''{{USERNAME}}'' \<and> map_of (temp_credentials s) ''username'' \<noteq> None) \<and>
      \<not> (text = VStr ''{{PASSWORD}}'' \<and> map_of (temp_credentials s) ''password'' \<noteq> None) \<longrightarrow>
        handle_action c env s action = invoke c s (Type_text_at px py text press_enter clear)) \<and>
     (\<forall>call. invoke c s call =
        Inr (Env (respond c (calls s @ [call])), s\<lparr>calls := calls s @ [call]\<rparr>))"
proof -
  note h = handle_action_type_text[OF assms(1-5), of env s]
  note t = substitute_text_cases[of "text" "temp_credentials s"]
  show ?thesis
    unfolding h assms(6)[symmetric] assms(7)[symmetric]
    using t[of u p] by (simp add: invoke_def)
qed

theorem type_text_placeholder_substitution_witness:
  "handle_action
     \<lparr>screen_size = (1440, 900),
      respond = (\<lambda>cs. \<lparr>url = ''https://example.com/login'', screenshot = ''png''\<rparr>)\<rparr>
     \<lparr>os_environ = [], py_upper = str_upper, py_lower = str_lower\<rparr>
     \<lparr>contents = [],
      temp_credentials = [(''username'', VStr ''alice''), (''password'', VStr ''s3cret'')],
      final_reasoning = None, calls = [], console = []\<rparr>
     \<lparr>fc_name = ''type_text_at'',
      fc_args = Some [(''x'', VInt 500), (''y'', VInt 500), (''text'', VStr ''{{PASSWORD}}'')]\<rparr> =
   Inr (Env \<lparr>url = ''https://example.com/login'', screenshot = ''png''\<rparr>,
        \<lparr>contents = [],
         temp_credentials = [(''username'', VStr ''alice''), (''password'', VStr ''s3cret'')],
         final_reasoning = None,
         calls = [Type_text_at 720 450 (VStr ''s3cret'') (VBool False) (VBool True)],
         console = []\<rparr>)"
proof -
  let ?c = "\<lparr>screen_size = (1440, 900),
      respond = (\<lambda>cs. \<lparr>url = ''https://example.com/login'', screenshot = ''png''\<rparr>)\<rparr>"
  let ?d = "[(''x'', VInt 500), (''y'', VInt 500), (''text'', VStr ''{{PASSWORD}}'')]"
  let ?a = "\<lparr>fc_name = ''type_text_at'', fc_args = Some ?d\<rparr>"
  have 1: "fc_name ?a = ''type_text_at''" by simp
  have 2: "fc_args ?a = Some ?d" by simp
  have 3: "on_ok (subscript ?d ''x'') (denormalize_x (screen_size ?c)) = Inr 720"
    by (simp add: subscript_def denormalize_x_def as_int_def denormalize_500_1440)
  have 4: "on_ok (subscript ?d ''y'') (denormalize_y (screen_size ?c)) = Inr 450"
    by (simp add: subscript_def denormalize_y_def as_int_def denormalize_500_900)
  have 5: "map_of ?d ''text'' = Some (VStr ''{{PASSWORD}}'')" by simp
  show ?thesis
    using type_text_placeholder_substitution[OF 1 2 3 4 5 refl refl,
        where s = "\<lparr>contents = [],
      temp_credentials = [(''username'', VStr ''alice''), (''password'', VStr ''s3cret'')],
      final_reasoning = None, calls = [], console = []\<rparr>" and p = "VStr ''s3cret''"
          and env = "\<lparr>os_environ = [], py_upper = str_upper, py_lower = str_lower\<rparr>"]
    by (simp add: invoke_def)
qed

lemma invoke_fields:
  "invoke c s call = Inr (r, s') \<Longrightarrow>
   temp_credentials s' = temp_credentials s \<and> contents s' = contents s \<and>
   console s' = console s \<and> final_reasoning s' = final_reasoning s \<and>
   calls s' = calls s @ [call]"
  by (auto simp: invoke_def)

lemma handle_action_frame_other:
  assumes "fc_name action \<noteq> ''perform_secure_login''"
    and "handle_action c env s action = Inr (r, s')"
  shows "temp_credentials s' = temp_credentials s \<and> contents s' = contents s \<and>
     console s' = console s \<and> final_reasoning s' = final_reasoning s"
  using assms
  unfolding handle_action_def
  by (auto split: if_splits pyval.splits dest!: on_ok_Inr invoke_fields)

lemma perform_secure_login_shape:
  "(\<exists>m u p. u \<noteq> [] \<and> p \<noteq> [] \<and>
      perform_secure_login env site =
        [(''success'', VBool True), (''message'', VStr m),
         (''username'', VStr u), (''password'', VStr p)]) \<or>
   (\<exists>m. perform_secure_login env site =
        [(''success'', VBool False), (''message'', VStr m),
         (''username'', VNone), (''password'', VNone)])"
  by (simp add: perform_secure_login_def Let_def split: option.splits)

lemma secure_login_action_success:
  assumes "perform_secure_login env site =
     [(''success'', VBool True), (''message'', m), (''username'', u), (''password'', p)]"
  shows "secure_login_action env s (VStr site) =
     Inr (Dict [(''success'', VBool True), (''message'', m),
                (''instruction'', VStr instruction_text)],
          s\<lparr>temp_credentials := [(''username'', u), (''password'', p)]\<rparr>)"
  using assms by (simp add: secure_login_action_def Let_def subscript_def truthy_def)

lemma secure_login_action_failure:
  assumes "perform_secure_login env site =
     [(''success'', VBool False), (''message'', m), (''username'', VNone), (''password'', VNone)]"
  shows "secure_login_action env s (VStr site) =
     Inr (Dict [(''success'', VBool False), (''message'', m)], s)"
  using assms by (simp add: secure_login_action_def Let_def subscript_def truthy_def)

lemma handle_action_login:
  "fc_name action = ''perform_secure_login'' \<Longrightarrow>
   handle_action c env s action = on_ok (arg action ''site'') (secure_login_action env s)"
  by (simp add: handle_action_def)

lemma secure_login_action_Inr:
  assumes "secure_login_action env s v = Inr (r, s')"
  shows "\<exists>site. v = VStr site \<and>
     ((\<exists>m u p. u \<noteq> [] \<and> p \<noteq> [] \<and>
         perform_secure_login env site =
           [(''success'', VBool True), (''message'', VStr m),
            (''username'', VStr u), (''password'', VStr p)] \<and>
         r = Dict [(''success'', VBool True), (''message'', VStr m),
                   (''instruction'', VStr instruction_text)] \<and>
         s' = s\<lparr>temp_credentials := [(''username'', VStr u), (''password'', VStr p)]\<rparr>) \<or>
      (\<exists>m. perform_secure_login env site =
           [(''success'', VBool False), (''message'', VStr m),
            (''username'', VNone), (''password'', VNone)] \<and>
         r = Dict [(''success'', VBool False), (''message'', VStr m)] \<and> s' = s))"
proof (cases v)
  case (VStr site)
  from perform_secure_login_shape[of env site] show ?thesis
  proof (elim disjE exE conjE)
    fix m u p
    assume a: "u \<noteq> []" "p \<noteq> []" "perform_secure_login env site =
        [(''success'', VBool True), (''message'', VStr m),
         (''username'', VStr u), (''password'', VStr p)]"
    from secure_login_action_success[OF a(3), of s] assms VStr a show ?thesis by auto
  next
    fix m
    assume a: "perform_secure_login env site =
        [(''success'', VBool False), (''message'', VStr m),
         (''username'', VNone), (''password'', VNone)]"
    from secure_login_action_failure[OF a, of s] assms VStr a show ?thesis by auto
  qed
qed (use assms in \<open>simp_all add: secure_login_action_def\<close>)

text \<open>
  Claim C10. Among the actions of handle\_action only perform\_secure\_login assigns
  \<^verbatim>\<open>_temp_credentials\<close>: every other action that returns leaves it as it was (so
  type\_text\_at reads it without consuming it); a retrieval that succeeds overwrites it
  with the pair of the environment, and one that fails leaves the whole agent as it was.
  Hence after a successful retrieval followed by a failed one, a type\_text\_at with
  \<open>{{USERNAME}}\<close> or \<open>{{PASSWORD}}\<close> still forwards the value the first retrieval stored.
\<close>

theorem credential_vault_frame:
  "(fc_name a \<noteq> ''perform_secure_login'' \<and> handle_action c env s a = Inr (r, s') \<longrightarrow>
      temp_credentials s' = temp_credentials s) \<and>
   (fc_name a = ''perform_secure_login'' \<and> handle_action c env s a = Inr (r, s') \<longrightarrow>
      (\<exists>site. arg a ''site'' = Inr (VStr site) \<and>
         ((\<exists>u p. map_of (perform_secure_login env site) ''success'' = Some (VBool True) \<and>
                 map_of (perform_secure_login env site) ''username'' = Some (VStr u) \<and>
                 map_of (perform_secure_login env site) ''password'' = Some (VStr p) \<and>
                 s' = s\<lparr>temp_credentials := [(''username'', VStr u), (''password'', VStr p)]\<rparr>) \<or>
          (map_of (perform_secure_login env site) ''success'' = Some (VBool False) \<and> s' = s)))) \<and>
   (fc_name a1 = ''perform_secure_login'' \<and> handle_action c env s a1 = Inr (Dict d1, s1) \<and>
    map_of d1 ''success'' = Some (VBool True) \<and>
    fc_name a2 = ''perform_secure_login'' \<and> handle_action c env s1 a2 = Inr (Dict d2, s2) \<and>
    map_of d2 ''success'' = Some (VBool False) \<and>
    fc_name t = ''type_text_at'' \<and> fc_args t = Some d \<and>
    on_ok (subscript d ''x'') (denormalize_x (screen_size c)) = Inr px \<and>
    on_ok (subscript d ''y'') (denormalize_y (screen_size c)) = Inr py \<and>
    map_of d ''text'' = Some txt \<and> (txt = VStr ''{{USERNAME}}'' \<or> txt = VStr ''{{PASSWORD}}'') \<longrightarrow>
      (\<exists>site u p. arg a1 ''site'' = Inr (VStr site) \<and>
         map_of (perform_secure_login env site) ''username'' = Some (VStr u) \<and>
         map_of (perform_secure_login env site) ''password'' = Some (VStr p) \<and>
         handle_action c env s2 t =
           invoke c s2 (Type_text_at px py
             (if txt = VStr ''{{USERNAME}}'' then VStr u else VStr p)
             (case map_of d ''press_enter'' of None \<Rightarrow> VBool False | Some v \<Rightarrow> v)
             (case map_of d ''clear_before_typing'' of None \<Rightarrow> VBool True | Some v \<Rightarrow> v))))"
proof (intro conjI impI)
  assume "fc_name a \<noteq> ''perform_secure_login'' \<and> handle_action c env s a = Inr (r, s')"
  then show "temp_credentials s' = temp_credentials s"
    using handle_action_frame_other[of a c env s r s'] by simp
next
  assume h: "fc_name a = ''perform_secure_login'' \<and> handle_action c env s a = Inr (r, s')"
  then have "on_ok (arg a ''site'') (secure_login_action env s) = Inr (r, s')"
    using handle_action_login[of a c env s] by simp
  then obtain v where v: "arg a ''site'' = Inr v" "secure_login_action env s v = Inr (r, s')"
    by (auto dest: on_ok_Inr)
  from secure_login_action_Inr[OF v(2)] v(1)
  show "\<exists>site. arg a ''site'' = Inr (VStr site) \<and>
         ((\<exists>u p. map_of (perform_secure_login env site) ''success'' = Some (VBool True) \<and>
                 map_of (perform_secure_login env site) ''username'' = Some (VStr u) \<and>
                 map_of (perform_secure_login env site) ''password'' = Some (VStr p) \<and>
                 s' = s\<lparr>temp_credentials := [(''username'', VStr u), (''password'', VStr p)]\<rparr>) \<or>
          (map_of (perform_secure_login env site) ''success'' = Some (VBool False) \<and> s' = s))"
    by (elim exE conjE disjE) auto
next
  assume h: "fc_name a1 = ''perform_secure_login'' \<and> handle_action c env s a1 = Inr (Dict d1, s1) \<and>
    map_of d1 ''success'' = Some (VBool True) \<and>
    fc_name a2 = ''perform_secure_login'' \<and> handle_action c env s1 a2 = Inr (Dict d2, s2) \<and>
    map_of d2 ''success'' = Some (VBool False) \<and>
    fc_name t = ''type_text_at'' \<and> fc_args t = Some d \<and>
    on_ok (subscript d ''x'') (denormalize_x (screen_size c)) = Inr px \<and>
    on_ok (subscript d ''y'') (denormalize_y (screen_size c)) = Inr py \<and>
    map_of d ''text'' = Some txt \<and> (txt = VStr ''{{USERNAME}}'' \<or> txt = VStr ''{{PASSWORD}}'')"
  from h have "on_ok (arg a1 ''site'') (secure_login_action env s) = Inr (Dict d1, s1)"
    using handle_action_login[of a1 c env s] by simp
  then obtain v1 where v1: "arg a1 ''site'' = Inr v1" "secure_login_action env s v1 = Inr (Dict d1, s1)"
    by (auto dest: on_ok_Inr)
  from secure_login_action_Inr[OF v1(2)] h
  obtain site m u p where 1: "v1 = VStr site"
    "perform_secure_login env site =
       [(''success'', VBool True), (''message'', VStr m),
        (''username'', VStr u), (''password'', VStr p)]"
    "s1 = s\<lparr>temp_credentials := [(''username'', VStr u), (''password'', VStr p)]\<rparr>"
    by auto
  from h have "on_ok (arg a2 ''site'') (secure_login_action env s1) = Inr (Dict d2, s2)"
    using handle_action_login[of a2 c env s1] by simp
  then obtain v2 where v2: "secure_login_action env s1 v2 = Inr (Dict d2, s2)"
    by (auto dest: on_ok_Inr)
  from secure_login_action_Inr[OF v2] h have 2: "s2 = s1" by auto
  have creds: "temp_credentials s2 = [(''username'', VStr u), (''password'', VStr p)]"
    by (simp add: 1(3) 2)
  from h have t: "fc_name t = ''type_text_at''" "fc_args t = Some d"
    "on_ok (subscript d ''x'') (denormalize_x (screen_size c)) = Inr px"
    "on_ok (subscript d ''y'') (denormalize_y (screen_size c)) = Inr py"
    "map_of d ''text'' = Some txt" by simp_all
  have sub: "substitute_text (temp_credentials s2) txt =
      (if txt = VStr ''{{USERNAME}}'' then VStr u else VStr p)"
    using h by (auto simp: creds substitute_text_def)
  have "handle_action c env s2 t =
           invoke c s2 (Type_text_at px py
             (if txt = VStr ''{{USERNAME}}'' then VStr u else VStr p)
             (case map_of d ''press_enter'' of None \<Rightarrow> VBool False | Some v \<Rightarrow> v)
             (case map_of d ''clear_before_typing'' of None \<Rightarrow> VBool True | Some v \<Rightarrow> v))"
    unfolding handle_action_type_text[OF t, of env s2] sub ..
  with v1(1) 1 show "\<exists>site u p. arg a1 ''site'' = Inr (VStr site) \<and>
         map_of (perform_secure_login env site) ''username'' = Some (VStr u) \<and>
         map_of (perform_secure_login env site) ''password'' = Some (VStr p) \<and>
         handle_action c env s2 t =
           invoke c s2 (Type_text_at px py
             (if txt = VStr ''{{USERNAME}}'' then VStr u else VStr p)
             (case map_of d ''press_enter'' of None \<Rightarrow> VBool False | Some v \<Rightarrow> v)
             (case map_of d ''clear_before_typing'' of None \<Rightarrow> VBool True | Some v \<Rightarrow> v))"
    by (intro exI[of _ site] exI[of _ u] exI[of _ p]) simp
qed

lemmas upper_eval = str_upper_def char_upper_def

theorem credential_vault_frame_witness:
  "handle_action
     \<lparr>screen_size = (1440, 900),
      respond = (\<lambda>cs. \<lparr>url = ''https://github.com/login'', screenshot = ''png''\<rparr>)\<rparr>
     \<lparr>os_environ = [(''GITHUB_USERNAME'', ''alice''), (''GITHUB_PASSWORD'', ''s3cret'')],
      py_upper = str_upper, py_lower = str_lower\<rparr>
     \<lparr>contents = [], temp_credentials = [], final_reasoning = None, calls = [], console = []\<rparr>
     \<lparr>fc_name = ''perform_secure_login'', fc_args = Some [(''site'', VStr ''github'')]\<rparr> =
   Inr (Dict [(''success'', VBool True),
              (''message'', VStr ''Credentials retrieved for github. Ready to perform login.''),
              (''instruction'', VStr instruction_text)],
        \<lparr>contents = [],
         temp_credentials = [(''username'', VStr ''alice''), (''password'', VStr ''s3cret'')],
         final_reasoning = None, calls = [], console = []\<rparr>) \<and>
   handle_action
     \<lparr>screen_size = (1440, 900),
      respond = (\<lambda>cs. \<lparr>url = ''https://github.com/login'', screenshot = ''png''\<rparr>)\<rparr>
     \<lparr>os_environ = [(''GITHUB_USERNAME'', ''alice''), (''GITHUB_PASSWORD'', ''s3cret'')],
      py_upper = str_upper, py_lower = str_lower\<rparr>
     \<lparr>contents = [],
      temp_credentials = [(''username'', VStr ''alice''), (''password'', VStr ''s3cret'')],
      final_reasoning = None, calls = [], console = []\<rparr>
     \<lparr>fc_name = ''perform_secure_login'', fc_args = Some [(''site'', VStr ''gitlab'')]\<rparr> =
   Inr (Dict [(''success'', VBool False),
              (''message'', VStr ''No credentials found for gitlab. Expected environment variables: GITLAB_USER and GITLAB_PASSWORD'')],
        \<lparr>contents = [],
         temp_credentials = [(''username'', VStr ''alice''), (''password'', VStr ''s3cret'')],
         final_reasoning = None, calls = [], console = []\<rparr>) \<and>
   handle_action
     \<lparr>screen_size = (1440, 900),
      respond = (\<lambda>cs. \<lparr>url = ''https://github.com/login'', screenshot = ''png''\<rparr>)\<rparr>
     \<lparr>os_environ = [(''GITHUB_USERNAME'', ''alice''), (''GITHUB_PASSWORD'', ''s3cret'')],
      py_upper = str_upper, py_lower = str_lower\<rparr>
     \<lparr>contents = [],
      temp_credentials = [(''username'', VStr ''alice''), (''password'', VStr ''s3cret'')],
      final_reasoning = None, calls = [], console = []\<rparr>
     \<lparr>fc_name = ''type_text_at'',
      fc_args = Some [(''x'', VInt 500), (''y'', VInt 500), (''text'', VStr ''{{USERNAME}}'')]\<rparr> =
   Inr (Env \<lparr>url = ''https://github.com/login'', screenshot = ''png''\<rparr>,
        \<lparr>contents = [],
         temp_credentials = [(''username'', VStr ''alice''), (''password'', VStr ''s3cret'')],
         final_reasoning = None,
         calls = [Type_text_at 720 450 (VStr ''alice'') (VBool False) (VBool True)],
         console = []\<rparr>)"
  (is "?A \<and> ?B \<and> ?C")
proof -
  let ?c = "\<lparr>screen_size = (1440, 900),
      respond = (\<lambda>cs. \<lparr>url = ''https://github.com/login'', screenshot = ''png''\<rparr>)\<rparr>"
  let ?env = "\<lparr>os_environ = [(''GITHUB_USERNAME'', ''alice''), (''GITHUB_PASSWORD'', ''s3cret'')],
      py_upper = str_upper, py_lower = str_lower\<rparr>"
  let ?d = "[(''x'', VInt 500), (''y'', VInt 500), (''text'', VStr ''{{USERNAME}}'')]"
  have l1: "perform_secure_login ?env ''github'' =
      [(''success'', VBool True),
       (''message'', VStr ''Credentials retrieved for github. Ready to perform login.''),
       (''username'', VStr ''alice''), (''password'', VStr ''s3cret'')]"
    by (simp add: perform_secure_login_def Let_def upper_eval)
  have l2: "perform_secure_login ?env ''gitlab'' =
      [(''success'', VBool False),
       (''message'', VStr ''No credentials found for gitlab. Expected environment variables: GITLAB_USER and GITLAB_PASSWORD''),
       (''username'', VNone), (''password'', VNone)]"
    by (simp add: perform_secure_login_def Let_def upper_eval)
  have A: ?A
    by (simp add: handle_action_login arg_def subscript_def secure_login_action_success[OF l1])
  have B: ?B
    by (simp add: handle_action_login arg_def subscript_def secure_login_action_failure[OF l2])
  have x: "on_ok (subscript ?d ''x'') (denormalize_x (screen_size ?c)) = Inr 720"
    by (simp add: subscript_def denormalize_x_def as_int_def denormalize_500_1440)
  have y: "on_ok (subscript ?d ''y'') (denormalize_y (screen_size ?c)) = Inr 450"
    by (simp add: subscript_def denormalize_y_def as_int_def denormalize_500_900)
  let ?s0 = "\<lparr>contents = [], temp_credentials = [], final_reasoning = None, calls = [],
      console = []\<rparr>"
  let ?s1 = "\<lparr>contents = [],
      temp_credentials = [(''username'', VStr ''alice''), (''password'', VStr ''s3cret'')],
      final_reasoning = None, calls = [], console = []\<rparr>"
  let ?a1 = "\<lparr>fc_name = ''perform_secure_login'', fc_args = Some [(''site'', VStr ''github'')]\<rparr>"
  let ?a2 = "\<lparr>fc_name = ''perform_secure_login'', fc_args = Some [(''site'', VStr ''gitlab'')]\<rparr>"
  let ?t = "\<lparr>fc_name = ''type_text_at'', fc_args = Some ?d\<rparr>"
  let ?d1 = "[(''success'', VBool True),
              (''message'', VStr ''Credentials retrieved for github. Ready to perform login.''),
              (''instruction'', VStr instruction_text)]"
  let ?d2 = "[(''success'', VBool False),
              (''message'', VStr ''No credentials found for gitlab. Expected environment variables: GITLAB_USER and GITLAB_PASSWORD'')]"
  have hyp: "fc_name ?a1 = ''perform_secure_login'' \<and> handle_action ?c ?env ?s0 ?a1 = Inr (Dict ?d1, ?s1) \<and>
    map_of ?d1 ''success'' = Some (VBool True) \<and>
    fc_name ?a2 = ''perform_secure_login'' \<and> handle_action ?c ?env ?s1 ?a2 = Inr (Dict ?d2, ?s1) \<and>
    map_of ?d2 ''success'' = Some (VBool False) \<and>
    fc_name ?t = ''type_text_at'' \<and> fc_args ?t = Some ?d \<and>
    on_ok (subscript ?d ''x'') (denormalize_x (screen_size ?c)) = Inr 720 \<and>
    on_ok (subscript ?d ''y'') (denormalize_y (screen_size ?c)) = Inr 450 \<and>
    map_of ?d ''text'' = Some (VStr ''{{USERNAME}}'') \<and>
    (VStr ''{{USERNAME}}'' = VStr ''{{USERNAME}}'' \<or> VStr ''{{USERNAME}}'' = VStr ''{{PASSWORD}}'')"
    using A B x y by simp
  have C: ?C
    using credential_vault_frame[THEN conjunct2, THEN conjunct2, THEN mp, OF hyp] l1
    by (auto simp: invoke_def arg_def subscript_def)
  from A B C show ?thesis by simp
qed

section \<open>Properties of one iteration\<close>


lemma handle_action_multiply:
  "fc_name action = ''multiply_numbers'' \<Longrightarrow>
   handle_action c env s action =
     on_ok (arg action ''x'') (\<lambda>x. on_ok (arg action ''y'') (\<lambda>y.
       on_ok (multiply_numbers x y) (\<lambda>d. Inr (Dict d, s))))"
  by (simp add: handle_action_def)

lemma handle_action_click:
  "fc_name action = ''click_at'' \<Longrightarrow>
   handle_action c env s action =
     on_ok (on_ok (arg action ''x'') (denormalize_x (screen_size c))) (\<lambda>x.
     on_ok (on_ok (arg action ''y'') (denormalize_y (screen_size c))) (\<lambda>y.
     invoke c s (Click_at x y)))"
  by (simp add: handle_action_def)

lemma trusted_gate:
  "get_safety_confirmation True
     [(''decision'', VStr ''require_confirmation''), (''explanation'', e)] inputs =
   Inr (CONTINUE, inputs)"
  by (simp add: get_safety_confirmation_def subscript_def)

text \<open>
  Claim C4. With trust mode on, a turn with two flagged calls, a built-in one
  (click\_at) and a custom one (multiply\_numbers): both confirmations resolve CONTINUE,
  the response of the built-in call carries \<open>safety_acknowledgement\<close>, and the response
  of the custom call is the dictionary the tool returned, without it.
\<close>

theorem acknowledgement_dropped_for_custom_tool:
  "dispatch_calls True
     \<lparr>screen_size = (1440, 900),
      respond = (\<lambda>cs. \<lparr>url = ''https://example.com'', screenshot = ''png''\<rparr>)\<rparr>
     \<lparr>os_environ = [], py_upper = str_upper, py_lower = str_lower\<rparr>
     \<lparr>contents = [], temp_credentials = [], final_reasoning = None, calls = [], console = []\<rparr>
     []
     [\<lparr>fc_name = ''click_at'',
       fc_args = Some [(''x'', VInt 500), (''y'', VInt 500),
                       (''safety_decision'',
                        VDict [(''decision'', VStr ''require_confirmation''),
                               (''explanation'', VStr ''a payment button'')])]\<rparr>,
      \<lparr>fc_name = ''multiply_numbers'',
       fc_args = Some [(''x'', VInt 2), (''y'', VInt 3),
                       (''safety_decision'',
                        VDict [(''decision'', VStr ''require_confirmation''),
                               (''explanation'', VStr ''a payment button'')])]\<rparr>] =
   Inr (Some [\<lparr>fr_name = ''click_at'',
               fr_response = [(''url'', VStr ''https://example.com''),
                              (''safety_acknowledgement'', VStr ''true'')],
               fr_parts = Some [\<lparr>mime_type = ''image/png'', blob_data = ''png''\<rparr>]\<rparr>,
              \<lparr>fr_name = ''multiply_numbers'',
               fr_response = [(''result'', VInt 6)],
               fr_parts = None\<rparr>],
        \<lparr>contents = [], temp_credentials = [], final_reasoning = None,
         calls = [Click_at 720 450], console = []\<rparr>)"
  by (simp add: safety_of_def truthy_def trusted_gate handle_action_click handle_action_multiply
      arg_def subscript_def denormalize_x_def denormalize_y_def as_int_def
      denormalize_500_1440 denormalize_500_900 invoke_def multiply_numbers_def
      to_function_response_def)








section \<open>Properties of the credential functions\<close>












end
